theory Spec2Isabelle
  imports Complex_Main "HOL-Library.Multiset"
begin

section \<open>JavaScript strings\<close>

text \<open>
  The two game pages compare and index strings with \<^verbatim>\<open>trim\<close>, \<^verbatim>\<open>toLowerCase\<close> and
  \<^verbatim>\<open>str[i]\<close>. A string is modelled as a \<^typ>\<open>string\<close> whose characters are the code
  units U+0000 .. U+00FF (Latin-1). On that range \<^verbatim>\<open>toLowerCase\<close> maps one code unit to
  one code unit (A-Z and the accented capitals U+00C0 .. U+00DE, except the multiplication
  sign U+00D7, move up by 32), and the characters that \<^verbatim>\<open>trim\<close> strips are TAB, LF, VT,
  FF, CR, SPACE and NBSP.
\<close>

definition isWhiteSpace :: "char \<Rightarrow> bool" where
  "isWhiteSpace c = (of_char c \<in> {9, 10, 11, 12, 13, 32, 160 :: nat})"

definition trim :: "string \<Rightarrow> string" where
  "trim str = rev (dropWhile isWhiteSpace (rev (dropWhile isWhiteSpace str)))"

definition toLowerCase_char :: "char \<Rightarrow> char" where
  "toLowerCase_char c =
     (let n = (of_char c :: nat)
      in if (65 \<le> n \<and> n \<le> 90) \<or> (192 \<le> n \<and> n \<le> 222 \<and> n \<noteq> 215)
         then char_of (n + 32) else c)"

definition toLowerCase :: "string \<Rightarrow> string" where
  "toLowerCase str = map toLowerCase_char str"

section \<open>Errors and collaborators\<close>

text \<open>
  The values that are thrown or that a promise rejects with: an \<^verbatim>\<open>Error\<close> object that
  carries a message, the \<^verbatim>\<open>TypeError\<close> that reading a property of \<^verbatim>\<open>undefined\<close>
  raises, and \<open>Nullish\<close>, the values \<^verbatim>\<open>undefined\<close> and \<^verbatim>\<open>null\<close> themselves (a
  promise may reject with any value). A function whose result type is \<open>error + 'a\<close>
  returns \<open>Inl e\<close> when the exception \<open>e\<close> leaves it.
\<close>

datatype error = Error string | TypeError | Nullish

text \<open>
  Reading \<^verbatim>\<open>error.message\<close> of a caught value: the message of an error object, and a
  \<^verbatim>\<open>TypeError\<close> when the value is \<^verbatim>\<open>undefined\<close> or \<^verbatim>\<open>null\<close>.
\<close>

definition message :: "error \<Rightarrow> error + string" where
  "message e =
     (case e of
        Error m \<Rightarrow> Inr m
      | TypeError \<Rightarrow> Inr ''Cannot read properties of undefined''
      | Nullish \<Rightarrow> Inl TypeError)"

section \<open>Blurry-image page\<close>

datatype GameState = Idle | Loading | Playing | Correct | Lost

datatype Difficulty = Easy | Medium | Hard

text \<open>The value that \<^verbatim>\<open>generateChallenge\<close> resolves to.\<close>

record Challenge =
  challenge_imageUrl :: string
  challenge_word :: string

text \<open>
  The component state: one field for each \<^verbatim>\<open>useState\<close> cell that the handlers read
  or write. \<^verbatim>\<open>revealedIndices\<close> is a JavaScript \<^verbatim>\<open>Set\<close> of numbers: a list without
  repetition in insertion order, to which \<open>Set_add\<close> appends only a new element.
\<close>

record Blurry =
  gameState :: GameState
  imageUrl :: "string option"
  correctWord :: string
  userGuess :: string
  difficulty :: "Difficulty option"
  attempts :: nat
  revealedIndices :: "nat list"
  hintsUsed :: nat

definition Set_add :: "nat \<Rightarrow> nat list \<Rightarrow> nat list" where
  "Set_add x xs = (if x \<in> set xs then xs else xs @ [x])"

text \<open>The state of a freshly mounted component (the initial values of the cells).\<close>

definition initialBlurry :: Blurry where
  "initialBlurry =
     \<lparr>gameState = Idle, imageUrl = None, correctWord = [], userGuess = [],
      difficulty = None, attempts = 0, revealedIndices = [], hintsUsed = 0\<rparr>"

text \<open>
  \<^verbatim>\<open>startNewChallenge\<close>: the content source is the parameter \<open>generateChallenge\<close>,
  which either resolves to a challenge or rejects. The \<^verbatim>\<open>try\<close> block has one
  \<^verbatim>\<open>catch\<close> for everything thrown inside it. The \<^verbatim>\<open>catch\<close> block reads
  \<^verbatim>\<open>error.message\<close> for the toast before it sets the state to idle, so it throws in
  its turn when the caught value is \<^verbatim>\<open>undefined\<close> or \<^verbatim>\<open>null\<close>. The result is
  \<open>Inr s'\<close> with the state \<open>s'\<close> once the returned promise has resolved, and
  \<open>Inl (e, s')\<close> when the promise rejects with \<open>e\<close>, the cells being left as \<open>s'\<close>.
\<close>

definition startNewChallenge ::
  "(Difficulty \<Rightarrow> error + Challenge) \<Rightarrow> Difficulty option \<Rightarrow> Blurry \<Rightarrow>
     (error \<times> Blurry) + Blurry" where
  "startNewChallenge generateChallenge selectedDifficulty s =
     (case selectedDifficulty of
        None \<Rightarrow> Inr s
      | Some d \<Rightarrow>
          (let s1 = s\<lparr>difficulty := Some d, gameState := Loading, userGuess := [],
                      attempts := 0, revealedIndices := [], hintsUsed := 0\<rparr>
           in case generateChallenge d of
                Inr challenge \<Rightarrow>
                  Inr (s1\<lparr>imageUrl := Some (challenge_imageUrl challenge),
                          correctWord := challenge_word challenge,
                          gameState := Playing\<rparr>)
              | Inl e \<Rightarrow>
                  (case message e of
                     Inr description \<Rightarrow> Inr (s1\<lparr>gameState := Idle\<rparr>)
                   | Inl thrown \<Rightarrow> Inl (thrown, s1))))"

text \<open>
  \<^verbatim>\<open>handleGuessSubmit\<close>. The test \<^verbatim>\<open>attempts >= 2\<close> reads the counter of the render
  in which the form was submitted, that is the value before the increment.
  \<^verbatim>\<open>completeActivity\<close> always resolves, so nothing is thrown on the winning path.
\<close>

definition handleGuessSubmit :: "Blurry \<Rightarrow> Blurry" where
  "handleGuessSubmit s =
     (if trim (userGuess s) = [] then s
      else
        let isCorrect = (toLowerCase (trim (userGuess s)) = toLowerCase (correctWord s))
        in if isCorrect then s\<lparr>gameState := Correct\<rparr>
           else
             let s1 = s\<lparr>attempts := attempts s + 1\<rparr>
             in if attempts s \<ge> 2 then s1\<lparr>gameState := Lost\<rparr> else s1)"

text \<open>
  \<^verbatim>\<open>handleHint\<close>. \<open>random i\<close> is the value of the \<open>i\<close>-th call of
  \<^verbatim>\<open>Math.random()\<close> in the loop, a number in the interval from 0 (included) to 1
  (excluded). \<open>splice1 k xs\<close> is what is left of \<open>xs\<close> after
  \<^verbatim>\<open>xs.splice(k, 1)\<close>.
\<close>

definition unrevealedOf :: "Blurry \<Rightarrow> nat list" where
  "unrevealedOf s =
     filter (\<lambda>i. i \<notin> set (revealedIndices s) \<and> correctWord s ! i \<noteq> CHR '' '')
            [0..<length (correctWord s)]"

definition splice1 :: "nat \<Rightarrow> 'a list \<Rightarrow> 'a list" where
  "splice1 k xs = take k xs @ drop (Suc k) xs"

definition revealCountOf :: "nat list \<Rightarrow> nat" where
  "revealCountOf unrevealed = max 1 (nat \<lfloor>real (length unrevealed) * 0.25\<rfloor>)"

function revealLoop ::
  "(nat \<Rightarrow> real) \<Rightarrow> nat \<Rightarrow> nat \<Rightarrow> nat list \<Rightarrow> nat list \<Rightarrow> nat list" where
  "revealLoop random i revealCount unrevealed indicesToReveal =
     (if i < revealCount then
        (if length unrevealed = 0 then indicesToReveal
         else
           let randomIndex = nat \<lfloor>random i * real (length unrevealed)\<rfloor>;
               selectedIndex = unrevealed ! randomIndex
           in revealLoop random (i + 1) revealCount (splice1 randomIndex unrevealed)
                (Set_add selectedIndex indicesToReveal))
      else indicesToReveal)"
  by pat_completeness auto
termination
  by (relation "measure (\<lambda>(random, i, revealCount, unrevealed, indicesToReveal). revealCount - i)")
     auto

definition handleHint :: "(nat \<Rightarrow> real) \<Rightarrow> Blurry \<Rightarrow> Blurry" where
  "handleHint random s =
     (let unrevealed = unrevealedOf s
      in if length unrevealed = 0 then s
         else
           s\<lparr>hintsUsed := hintsUsed s + 1,
             revealedIndices :=
               revealLoop random 0 (revealCountOf unrevealed) unrevealed (revealedIndices s)\<rparr>)"

text \<open>
  \<^verbatim>\<open>renderContent\<close> chooses what is mounted. The guess form and the hint button exist
  only in the playing view, so their handlers can be triggered only there.
\<close>

datatype View = LoaderView | PlayingView | TerminalView | InitialView

definition renderContent :: "Blurry \<Rightarrow> View" where
  "renderContent s =
     (case gameState s of
        Loading \<Rightarrow> LoaderView
      | Playing \<Rightarrow> PlayingView
      | Correct \<Rightarrow> TerminalView
      | Lost \<Rightarrow> TerminalView
      | Idle \<Rightarrow> InitialView)"

datatype Event = ChangeGuess string | SubmitForm | ClickHint "nat \<Rightarrow> real"

fun dispatch :: "Event \<Rightarrow> Blurry \<Rightarrow> Blurry" where
  "dispatch (ChangeGuess v) s = (if renderContent s = PlayingView then s\<lparr>userGuess := v\<rparr> else s)"
| "dispatch SubmitForm s = (if renderContent s = PlayingView then handleGuessSubmit s else s)"
| "dispatch (ClickHint random) s = (if renderContent s = PlayingView then handleHint random s else s)"

text \<open>Typing a guess into the input and submitting the form.\<close>

definition submitGuess :: "string \<Rightarrow> Blurry \<Rightarrow> Blurry" where
  "submitGuess guess s = dispatch SubmitForm (dispatch (ChangeGuess guess) s)"

text \<open>
  The states a player can bring the page into: the mounted component, any settled
  \<^verbatim>\<open>startNewChallenge\<close> (resolved or rejected), and the events of the view that is on
  screen.
\<close>

inductive reachableBlurry :: "Blurry \<Rightarrow> bool" where
  mounted: "reachableBlurry initialBlurry"
| started: "reachableBlurry s \<Longrightarrow> startNewChallenge generateChallenge d s = Inr s' \<Longrightarrow> reachableBlurry s'"
| stuck: "reachableBlurry s \<Longrightarrow> startNewChallenge generateChallenge d s = Inl (e, s') \<Longrightarrow> reachableBlurry s'"
| event: "reachableBlurry s \<Longrightarrow> reachableBlurry (dispatch e s)"

declare revealLoop.simps [simp del]

section \<open>Memory-game page\<close>

datatype CardType = WordCard | ImageCard

record GameCard =
  card_id :: nat
  card_type :: CardType
  content :: string
  pairId :: string
  isFlipped :: bool
  isMatched :: bool

text \<open>One element of the list that \<^verbatim>\<open>generateMemoryGameCards\<close> resolves to.\<close>

record FetchedCard =
  fetched_word :: string
  fetched_imageUrl :: string

datatype MemoryState = MLoading | MPlaying | MWon

record Memory =
  cards :: "GameCard list"
  flippedCards :: "nat list"
  memoryState :: MemoryState
  isChecking :: bool

definition initialMemory :: Memory where
  "initialMemory = \<lparr>cards = [], flippedCards = [], memoryState = MLoading, isChecking = False\<rparr>"

text \<open>
  \<^verbatim>\<open>shuffleArray\<close> sorts a copy with a comparator that answers at random. Whatever
  the engine's sort does with such a comparator, it rearranges the elements; \<open>order\<close>
  lists, for each place of the result, the index of the element that lands there, and is
  a permutation of the indices.
\<close>

definition shuffleArray :: "nat list \<Rightarrow> 'a list \<Rightarrow> 'a list" where
  "shuffleArray order array = map (\<lambda>i. array ! i) order"

definition isOrderOf :: "nat list \<Rightarrow> 'a list \<Rightarrow> bool" where
  "isOrderOf order array = (mset order = mset [0..<length array])"

text \<open>The \<^verbatim>\<open>forEach\<close> of \<^verbatim>\<open>startNewGame\<close>, from the element with number \<open>index\<close> on.\<close>

fun gameCardsFrom :: "nat \<Rightarrow> FetchedCard list \<Rightarrow> GameCard list" where
  "gameCardsFrom index [] = []"
| "gameCardsFrom index (fetched # rest) =
     \<lparr>card_id = index * 2, card_type = WordCard, content = fetched_word fetched,
      pairId = fetched_word fetched, isFlipped = False, isMatched = False\<rparr> #
     \<lparr>card_id = index * 2 + 1, card_type = ImageCard, content = fetched_imageUrl fetched,
      pairId = fetched_word fetched, isFlipped = False, isMatched = False\<rparr> #
     gameCardsFrom (index + 1) rest"

definition startNewGame :: "error + FetchedCard list \<Rightarrow> nat list \<Rightarrow> Memory \<Rightarrow> error + Memory" where
  "startNewGame response order s =
     (let s1 = s\<lparr>memoryState := MLoading, flippedCards := []\<rparr>
      in case response of
           Inr fetchedCards \<Rightarrow>
             Inr (s1\<lparr>cards := shuffleArray order (gameCardsFrom 0 fetchedCards),
                     memoryState := MPlaying\<rparr>)
         | Inl e \<Rightarrow> Inr (s1\<lparr>memoryState := MPlaying\<rparr>))"

text \<open>
  \<^verbatim>\<open>handleCardClick\<close>. \<^verbatim>\<open>cards.find(...)?.isFlipped\<close> is \<^verbatim>\<open>undefined\<close>, hence
  falsy, when no card has the id.
\<close>

definition handleCardClick :: "nat \<Rightarrow> Memory \<Rightarrow> Memory" where
  "handleCardClick cardId s =
     (if isChecking s \<or> length (flippedCards s) = 2 \<or>
         (case find (\<lambda>c. card_id c = cardId) (cards s) of
            Some c \<Rightarrow> isFlipped c
          | None \<Rightarrow> False)
      then s
      else
        s\<lparr>cards := map (\<lambda>c. if card_id c = cardId then c\<lparr>isFlipped := True\<rparr> else c) (cards s),
          flippedCards := flippedCards s @ [cardId]\<rparr>)"

text \<open>
  \<^verbatim>\<open>checkMatch\<close>, from its call to the settling of its promise (the pause before a
  mismatched pair is turned back is not part of the state). The destructuring
  \<^verbatim>\<open>[firstCard, secondCard]\<close> takes the first two cards whose id is selected; when
  there are fewer than two, reading \<^verbatim>\<open>pairId\<close> of \<^verbatim>\<open>undefined\<close> throws.
\<close>

definition checkMatch :: "Memory \<Rightarrow> error + Memory" where
  "checkMatch s =
     (if length (flippedCards s) \<noteq> 2 then Inr s
      else
        (case filter (\<lambda>c. card_id c \<in> set (flippedCards s)) (cards s) of
           firstCard # secondCard # others \<Rightarrow>
             if pairId firstCard = pairId secondCard
             then Inr (s\<lparr>cards := map (\<lambda>c. if card_id c \<in> set (flippedCards s)
                                           then c\<lparr>isMatched := True\<rparr> else c) (cards s),
                          flippedCards := [], isChecking := False\<rparr>)
             else Inr (s\<lparr>cards := map (\<lambda>c. if card_id c \<in> set (flippedCards s)
                                           then c\<lparr>isFlipped := False\<rparr> else c) (cards s),
                          flippedCards := [], isChecking := False\<rparr>)
         | _ \<Rightarrow> Inl TypeError))"

text \<open>
  A click and the effect that follows it. \<open>clickIgnored\<close> is the guard of
  \<^verbatim>\<open>handleCardClick\<close>: when it holds the handler returns before any state is set,
  nothing is rendered again and no effect runs. Otherwise \<^verbatim>\<open>flippedCards\<close> has
  changed and the effect calls \<^verbatim>\<open>checkMatch\<close> when two cards are selected.
\<close>

definition clickIgnored :: "nat \<Rightarrow> Memory \<Rightarrow> bool" where
  "clickIgnored cardId s =
     (isChecking s \<or> length (flippedCards s) = 2 \<or>
      (case find (\<lambda>c. card_id c = cardId) (cards s) of
         Some c \<Rightarrow> isFlipped c
       | None \<Rightarrow> False))"

definition flip :: "nat \<Rightarrow> Memory \<Rightarrow> error + Memory" where
  "flip cardId s =
     (if clickIgnored cardId s then Inr s
      else
        let s1 = handleCardClick cardId s
        in if length (flippedCards s1) = 2 then checkMatch s1 else Inr s1)"

definition allMatched :: "Memory \<Rightarrow> bool" where
  "allMatched s = (length (cards s) > 0 \<and> list_all isMatched (cards s))"

definition completeGame :: "Memory \<Rightarrow> Memory" where
  "completeGame s = (if allMatched s then s\<lparr>memoryState := MWon\<rparr> else s)"

text \<open>
  The states a player can bring the page into. A click reaches \<^verbatim>\<open>handleCardClick\<close>
  with the id of a card of the array, since only those are drawn.
\<close>

inductive reachableMemory :: "Memory \<Rightarrow> bool" where
  mountedM: "reachableMemory initialMemory"
| startedM:
    "reachableMemory s \<Longrightarrow>
     (\<And>fetchedCards. response = Inr fetchedCards \<Longrightarrow> isOrderOf order (gameCardsFrom 0 fetchedCards)) \<Longrightarrow>
     startNewGame response order s = Inr s' \<Longrightarrow> reachableMemory s'"
| clicked: "reachableMemory s \<Longrightarrow> c \<in> set (cards s) \<Longrightarrow> reachableMemory (handleCardClick (card_id c) s)"
| evaluated: "reachableMemory s \<Longrightarrow> checkMatch s = Inr s' \<Longrightarrow> reachableMemory s'"
| completed: "reachableMemory s \<Longrightarrow> reachableMemory (completeGame s)"

section \<open>Example rounds\<close>

definition dragonChallenge :: "Difficulty \<Rightarrow> error + Challenge" where
  "dragonChallenge d = Inr \<lparr>challenge_imageUrl = ''dragon.png'', challenge_word = ''dragon''\<rparr>"

definition dragonRound :: Blurry where
  "dragonRound =
     \<lparr>gameState = Playing, imageUrl = Some ''dragon.png'', correctWord = ''dragon'',
      userGuess = [], difficulty = Some Easy, attempts = 0, revealedIndices = [],
      hintsUsed = 0\<rparr>"

definition lostRound :: Blurry where
  "lostRound = dragonRound\<lparr>userGuess := ''bird'', attempts := 3, gameState := Lost\<rparr>"

definition twoWrongRound :: Blurry where
  "twoWrongRound = dragonRound\<lparr>userGuess := ''bird'', attempts := 2\<rparr>"

definition iceCreamRound :: Blurry where
  "iceCreamRound = dragonRound\<lparr>imageUrl := Some ''ice.png'', correctWord := ''ice cream''\<rparr>"

definition revealedDragonRound :: Blurry where
  "revealedDragonRound = dragonRound\<lparr>revealedIndices := [3, 0, 5, 1, 4, 2], hintsUsed := 4\<rparr>"

text \<open>Two sources of random numbers: every draw is 1/2, every draw is 0.\<close>

definition randomHalf :: "nat \<Rightarrow> real" where
  "randomHalf j = 1 / 2"

definition randomZero :: "nat \<Rightarrow> real" where
  "randomZero j = 0"

definition offline :: "Difficulty \<Rightarrow> error + Challenge" where
  "offline d = Inl (Error ''offline'')"

definition rejectsWithUndefined :: "Difficulty \<Rightarrow> error + Challenge" where
  "rejectsWithUndefined d = Inl Nullish"

text \<open>A content source whose word ends with a space, and the round it starts.\<close>

definition paddedChallenge :: "Difficulty \<Rightarrow> error + Challenge" where
  "paddedChallenge d = Inr \<lparr>challenge_imageUrl = ''dragon.png'', challenge_word = ''dragon ''\<rparr>"

definition paddedRound :: Blurry where
  "paddedRound = dragonRound\<lparr>correctWord := ''dragon ''\<rparr>"

definition catDogPairs :: "FetchedCard list" where
  "catDogPairs =
     [\<lparr>fetched_word = ''cat'', fetched_imageUrl = ''cat.png''\<rparr>,
      \<lparr>fetched_word = ''dog'', fetched_imageUrl = ''dog.png''\<rparr>]"

definition catDogGame :: Memory where
  "catDogGame =
     \<lparr>cards =
        [\<lparr>card_id = 2, card_type = WordCard, content = ''dog'', pairId = ''dog'',
          isFlipped = False, isMatched = False\<rparr>,
         \<lparr>card_id = 0, card_type = WordCard, content = ''cat'', pairId = ''cat'',
          isFlipped = False, isMatched = False\<rparr>,
         \<lparr>card_id = 3, card_type = ImageCard, content = ''dog.png'', pairId = ''dog'',
          isFlipped = False, isMatched = False\<rparr>,
         \<lparr>card_id = 1, card_type = ImageCard, content = ''cat.png'', pairId = ''cat'',
          isFlipped = False, isMatched = False\<rparr>],
      flippedCards = [], memoryState = MPlaying, isChecking = False\<rparr>"

definition twoCatsPairs :: "FetchedCard list" where
  "twoCatsPairs =
     [\<lparr>fetched_word = ''cat'', fetched_imageUrl = ''cat1.png''\<rparr>,
      \<lparr>fetched_word = ''cat'', fetched_imageUrl = ''cat2.png''\<rparr>]"

definition twoCatsGame :: Memory where
  "twoCatsGame =
     (case startNewGame (Inr twoCatsPairs) [0, 1, 2, 3] initialMemory of
        Inr s \<Rightarrow> s
      | Inl e \<Rightarrow> initialMemory)"

text \<open>States of the cat and dog game after clicks.\<close>

definition oneUpGame :: Memory where
  "oneUpGame = handleCardClick 0 catDogGame"

definition mismatchedGame :: Memory where
  "mismatchedGame = handleCardClick 3 oneUpGame"

definition catsMatchedGame :: Memory where
  "catsMatchedGame =
     (case flip 1 oneUpGame of Inr s \<Rightarrow> s | Inl e \<Rightarrow> oneUpGame)"

text \<open>
  What holds of every state of the memory game that a player can reach: card ids are
  unique, at most two distinct ids of cards are selected, the selected cards are face up
  and unmatched, and matched cards are face up.
\<close>

definition memoryInv :: "Memory \<Rightarrow> bool" where
  "memoryInv s =
     (distinct (map card_id (cards s)) \<and> distinct (flippedCards s) \<and>
      length (flippedCards s) \<le> 2 \<and>
      set (flippedCards s) \<subseteq> card_id ` set (cards s) \<and>
      (\<forall>c\<in>set (cards s). card_id c \<in> set (flippedCards s) \<longrightarrow> isFlipped c \<and> \<not> isMatched c) \<and>
      (\<forall>c\<in>set (cards s). isMatched c \<longrightarrow> isFlipped c))"


section \<open>Guessing on the blurry-image page\<close>

lemma toLowerCase_Nil_iff: "toLowerCase str = [] \<longleftrightarrow> str = []"
  by (simp add: toLowerCase_def)








lemma start_dragonRound:
  "startNewChallenge dragonChallenge (Some Easy) initialBlurry = Inr dragonRound"
  by (simp add: startNewChallenge_def dragonChallenge_def initialBlurry_def dragonRound_def)

lemma reachable_dragonRound: "reachableBlurry dragonRound"
  by (rule reachableBlurry.started [OF reachableBlurry.mounted start_dragonRound])

lemma reachable_fold_submitGuess:
  "reachableBlurry s \<Longrightarrow> reachableBlurry (fold submitGuess gs s)"
proof (induction gs arbitrary: s)
  case Nil
  then show ?case by simp
next
  case (Cons g gs)
  have "reachableBlurry (submitGuess g s)"
    unfolding submitGuess_def by (intro reachableBlurry.event Cons.prems)
  then show ?case by (simp add: Cons.IH)
qed


lemma fold_wrong_guesses: "fold submitGuess [''cat'', ''Dog '', ''bird''] dragonRound = lostRound"
  by code_simp

lemma right_guess_eval: "toLowerCase (trim ''Dragon '') = toLowerCase ''dragon''"
  by code_simp

text \<open>
  Claim C7 (amended). On a round that is being played, with a non-empty target word that
  has no leading or trailing white space, a guess that equals the target word once
  leading and trailing white space is removed and both sides are put in lower case sets
  the status to \<open>Correct\<close> (the spec's Won). The witness is the round started on the word
  "dragon" and the guess "Dragon " with a trailing space.
\<close>

theorem matching_guess_wins:
  assumes "gameState s = Playing" and "correctWord s \<noteq> []"
    and "trim (correctWord s) = correctWord s"
    and "toLowerCase (trim guess) = toLowerCase (trim (correctWord s))"
  shows "gameState (submitGuess guess s) = Correct"
proof -
  have eq: "toLowerCase (trim guess) = toLowerCase (correctWord s)"
    using assms(3,4) by simp
  have "trim guess \<noteq> []"
    using assms(2) eq by (metis toLowerCase_Nil_iff)
  then show ?thesis
    using assms(1) eq by (simp add: submitGuess_def renderContent_def handleGuessSubmit_def)
qed

theorem matching_guess_wins_witness:
  "startNewChallenge dragonChallenge (Some Easy) initialBlurry = Inr dragonRound \<and>
   gameState dragonRound = Playing \<and> correctWord dragonRound \<noteq> [] \<and>
   trim (correctWord dragonRound) = correctWord dragonRound \<and>
   toLowerCase (trim ''Dragon '') = toLowerCase (trim (correctWord dragonRound)) \<and>
   gameState (submitGuess ''Dragon '' dragonRound) = Correct"
proof -
  have w: "correctWord dragonRound = ''dragon''" by (simp add: dragonRound_def)
  have h1: "gameState dragonRound = Playing" by (simp add: dragonRound_def)
  have h2: "correctWord dragonRound \<noteq> []" by (simp add: dragonRound_def)
  have t: "trim ''dragon'' = ''dragon''" by code_simp
  have h3: "trim (correctWord dragonRound) = correctWord dragonRound" unfolding w by (rule t)
  have h4: "toLowerCase (trim ''Dragon '') = toLowerCase (trim (correctWord dragonRound))"
    unfolding w t by (rule right_guess_eval)
  have "gameState (submitGuess ''Dragon '' dragonRound) = Correct"
    by (rule matching_guess_wins [OF h1 h2 h3 h4])
  with start_dragonRound h1 h2 h3 h4 show ?thesis by blast
qed

text \<open>
  The word "dragon " ends with a space: the guess is trimmed and the word is not, so the
  guess "dragon ", the word itself, counts as a failed attempt.
\<close>

theorem padded_word_counterexample:
  "startNewChallenge paddedChallenge (Some Easy) initialBlurry = Inr paddedRound \<and>
   gameState paddedRound = Playing \<and> correctWord paddedRound = ''dragon '' \<and>
   gameState (submitGuess ''dragon '' paddedRound) = Playing \<and>
   attempts (submitGuess ''dragon '' paddedRound) = 1"
proof -
  have a: "startNewChallenge paddedChallenge (Some Easy) initialBlurry = Inr paddedRound"
    by (simp add: startNewChallenge_def paddedChallenge_def initialBlurry_def paddedRound_def
        dragonRound_def)
  have b: "gameState paddedRound = Playing" "correctWord paddedRound = ''dragon ''"
    by (simp_all add: paddedRound_def dragonRound_def)
  have c: "gameState (submitGuess ''dragon '' paddedRound) = Playing" by code_simp
  have d: "attempts (submitGuess ''dragon '' paddedRound) = 1" by code_simp
  from a b c d show ?thesis by blast
qed

lemma twoWrongRound_eq:
  "twoWrongRound = dispatch (ChangeGuess ''bird'') (fold submitGuess [''cat'', ''Dog ''] dragonRound)"
  by code_simp

lemma reachable_twoWrongRound: "reachableBlurry twoWrongRound"
  unfolding twoWrongRound_eq
  by (intro reachableBlurry.event reachable_fold_submitGuess reachable_dragonRound)

lemma submit_twoWrongRound: "dispatch SubmitForm twoWrongRound = lostRound"
  by code_simp

lemma reachable_lostRound: "reachableBlurry lostRound"
  using reachableBlurry.event [OF reachable_twoWrongRound, of SubmitForm]
  unfolding submit_twoWrongRound .



text \<open>
  Claim C5. Submitting a guess changes nothing when the status is not \<open>Playing\<close> or the
  guess is empty after trimming. In every state whose status is not \<open>Playing\<close> (won, lost,
  idle or loading) typing and submitting any guess leaves the whole state as it is: the
  guess form is mounted only while playing. For a guess that is empty after trimming,
  typing and submitting it leaves the status, the attempts, the revealed indices, the
  hints used and the word unchanged in every state, and the handler alone returns the
  state it was given.
\<close>

theorem blank_guess_or_unmounted_form_changes_nothing:
  "(gameState s \<noteq> Playing \<longrightarrow>
      submitGuess guess s = s \<and> dispatch SubmitForm s = s \<and> dispatch (ChangeGuess guess) s = s) \<and>
   (trim guess = [] \<longrightarrow>
      gameState (submitGuess guess s) = gameState s \<and>
      attempts (submitGuess guess s) = attempts s \<and>
      revealedIndices (submitGuess guess s) = revealedIndices s \<and>
      hintsUsed (submitGuess guess s) = hintsUsed s \<and>
      correctWord (submitGuess guess s) = correctWord s) \<and>
   (trim (userGuess s) = [] \<longrightarrow> handleGuessSubmit s = s)"
  by (cases "gameState s")
     (simp_all add: handleGuessSubmit_def submitGuess_def renderContent_def)

theorem blank_guess_or_unmounted_form_changes_nothing_witness:
  "reachableBlurry lostRound \<and> gameState lostRound = Lost \<and>
   submitGuess ''cat'' lostRound = lostRound \<and> submitGuess ''dragon'' lostRound = lostRound \<and>
   trim ''   '' = [] \<and>
   gameState (submitGuess ''   '' dragonRound) = gameState dragonRound \<and>
   attempts (submitGuess ''   '' dragonRound) = attempts dragonRound \<and>
   revealedIndices (submitGuess ''   '' dragonRound) = revealedIndices dragonRound \<and>
   hintsUsed (submitGuess ''   '' dragonRound) = hintsUsed dragonRound \<and>
   handleGuessSubmit (dragonRound\<lparr>userGuess := ''   ''\<rparr>) = dragonRound\<lparr>userGuess := ''   ''\<rparr>"
proof -
  note T = blank_guess_or_unmounted_form_changes_nothing
  have lost: "gameState lostRound = Lost" by (simp add: lostRound_def)
  then have np: "gameState lostRound \<noteq> Playing" by simp
  have a: "submitGuess ''cat'' lostRound = lostRound"
    using T [of lostRound "''cat''"] np by blast
  have b: "submitGuess ''dragon'' lostRound = lostRound"
    using T [of lostRound "''dragon''"] np by blast
  have blank: "trim ''   '' = []" by code_simp
  have c: "gameState (submitGuess ''   '' dragonRound) = gameState dragonRound \<and>
      attempts (submitGuess ''   '' dragonRound) = attempts dragonRound \<and>
      revealedIndices (submitGuess ''   '' dragonRound) = revealedIndices dragonRound \<and>
      hintsUsed (submitGuess ''   '' dragonRound) = hintsUsed dragonRound"
    using T [of dragonRound "''   ''"] blank by blast
  have blank': "trim (userGuess (dragonRound\<lparr>userGuess := ''   ''\<rparr>)) = []"
    using blank by simp
  have d: "handleGuessSubmit (dragonRound\<lparr>userGuess := ''   ''\<rparr>) = dragonRound\<lparr>userGuess := ''   ''\<rparr>"
    using T [of "dragonRound\<lparr>userGuess := ''   ''\<rparr>"] blank' by blast
  from reachable_lostRound lost a b blank c d show ?thesis by blast
qed

section \<open>Hints on the blurry-image page\<close>

lemma randomIndex_less:
  assumes "0 \<le> r" "r < 1" "0 < n"
  shows "nat \<lfloor>r * real n\<rfloor> < n"
proof -
  have "r * real n < real n" using assms by simp
  then have "\<lfloor>r * real n\<rfloor> < int n" by (simp add: floor_less_iff)
  then show ?thesis using assms by linarith
qed

lemma revealCountOf_eq: "revealCountOf unrevealed = max 1 (length unrevealed div 4)"
proof -
  have e: "real (length unrevealed) * 0.25 = real (length unrevealed) / real (4::nat)" by simp
  have "\<lfloor>real (length unrevealed) * 0.25\<rfloor> = int (length unrevealed div 4)"
    unfolding e by (rule floor_divide_of_nat_eq)
  then show ?thesis by (simp only: revealCountOf_def nat_int)
qed

lemma set_splice1:
  assumes "k < length xs" "distinct xs"
  shows "set (splice1 k xs) = set xs - {xs ! k}"
proof -
  have xs: "xs = take k xs @ xs ! k # drop (Suc k) xs"
    using assms(1) by (simp add: id_take_nth_drop)
  have "distinct (take k xs @ xs ! k # drop (Suc k) xs)" using assms(2) xs by simp
  then have "xs ! k \<notin> set (take k xs) \<and> xs ! k \<notin> set (drop (Suc k) xs)" by auto
  moreover have "set xs = set (take k xs) \<union> {xs ! k} \<union> set (drop (Suc k) xs)"
    by (subst xs) auto
  ultimately show ?thesis unfolding splice1_def by auto
qed

lemma distinct_splice1: "distinct xs \<Longrightarrow> distinct (splice1 k xs)"
proof -
  assume d: "distinct xs"
  have "distinct (take k xs @ drop k xs)" using d by simp
  then have "set (take k xs) \<inter> set (drop k xs) = {}" by (simp only: distinct_append)
  moreover have "set (drop (Suc k) xs) \<subseteq> set (drop k xs)"
    by (rule set_drop_subset_set_drop) simp
  ultimately have "set (take k xs) \<inter> set (drop (Suc k) xs) = {}" by blast
  then show ?thesis unfolding splice1_def using d by simp
qed

lemma length_splice1: "k < length xs \<Longrightarrow> length (splice1 k xs) = length xs - 1"
  unfolding splice1_def by auto

lemma set_Set_add: "set (Set_add x xs) = insert x (set xs)"
  by (auto simp: Set_add_def)

lemma revealLoop_mono: "set R \<subseteq> set (revealLoop random i n U R)"
proof (induction random i n U R rule: revealLoop.induct)
  case (1 random i n U R)
  show ?case
  proof (cases "i < n \<and> length U \<noteq> 0")
    case True
    let ?k = "nat \<lfloor>random i * real (length U)\<rfloor>"
    have "set (Set_add (U ! ?k) R) \<subseteq> set (revealLoop random (i + 1) n (splice1 ?k U) (Set_add (U ! ?k) R))"
      using True by (intro "1.IH") auto
    then show ?thesis
      using True by (subst revealLoop.simps) (auto simp: Let_def set_Set_add)
  next
    case False
    then show ?thesis by (subst revealLoop.simps) auto
  qed
qed

lemma revealLoop_spec:
  assumes "\<forall>j. 0 \<le> random j \<and> random j < 1"
    and "distinct U" and "set U \<inter> set R = {}" and "n - i \<le> length U"
  shows "\<exists>P. P \<subseteq> set U \<and> card P = n - i \<and> set (revealLoop random i n U R) = set R \<union> P"
  using assms
proof (induction random i n U R rule: revealLoop.induct)
  case (1 random i n U R)
  note rnd = "1.prems"(1)
  show ?case
  proof (cases "i < n")
    case False
    then have "revealLoop random i n U R = R" by (subst revealLoop.simps) simp
    with False show ?thesis by (intro exI [of _ "{}"]) simp
  next
    case True
    with "1.prems" have ne: "length U \<noteq> 0" "0 < length U" by auto
    let ?k = "nat \<lfloor>random i * real (length U)\<rfloor>"
    let ?x = "U ! ?k"
    have k: "?k < length U" using rnd ne by (intro randomIndex_less) auto
    have xU: "?x \<in> set U" using k by (rule nth_mem)
    have x: "?x \<in> set U" "?x \<notin> set R" using xU "1.prems"(3) by blast+
    have step: "revealLoop random i n U R =
        revealLoop random (i + 1) n (splice1 ?k U) (Set_add ?x R)"
      using True ne by (subst revealLoop.simps) (simp add: Let_def)
    have U': "set (splice1 ?k U) = set U - {?x}" "distinct (splice1 ?k U)"
      "length (splice1 ?k U) = length U - 1"
      using k "1.prems" by (simp_all add: set_splice1 distinct_splice1 length_splice1)
    have "\<exists>P. P \<subseteq> set (splice1 ?k U) \<and> card P = n - (i + 1) \<and>
        set (revealLoop random (i + 1) n (splice1 ?k U) (Set_add ?x R)) = set (Set_add ?x R) \<union> P"
    proof (rule "1.IH" [OF True _ refl refl])
      show "length U \<noteq> 0" by (rule ne)
      show "\<forall>j. 0 \<le> random j \<and> random j < 1" by (rule rnd)
      show "distinct (splice1 ?k U)" by (rule U')
      show "set (splice1 ?k U) \<inter> set (Set_add ?x R) = {}"
        using "1.prems" U'(1) by (auto simp: set_Set_add)
      show "n - (i + 1) \<le> length (splice1 ?k U)"
        using "1.prems" U'(3) by simp
    qed
    then obtain P where P: "P \<subseteq> set (splice1 ?k U)" "card P = n - (i + 1)"
      "set (revealLoop random (i + 1) n (splice1 ?k U) (Set_add ?x R)) = set (Set_add ?x R) \<union> P"
      by blast
    have fin: "finite P" using P(1) by (rule finite_subset) simp
    have notin: "?x \<notin> P" using P(1) U'(1) by auto
    have "insert ?x P \<subseteq> set U" using P(1) U'(1) x by auto
    moreover have "card (insert ?x P) = n - i" using fin notin P(2) True by simp
    moreover have "set (revealLoop random i n U R) = set R \<union> insert ?x P"
      unfolding step P(3) by (auto simp: set_Set_add)
    ultimately show ?thesis by blast
  qed
qed


lemma set_unrevealedOf:
  "set (unrevealedOf s) =
     {i. i < length (correctWord s) \<and> i \<notin> set (revealedIndices s) \<and> correctWord s ! i \<noteq> CHR '' ''}"
  by (auto simp: unrevealedOf_def)

lemma distinct_unrevealedOf: "distinct (unrevealedOf s)"
  by (simp add: unrevealedOf_def)

lemma card_unrevealedOf:
  "card {i. i < length (correctWord s) \<and> i \<notin> set (revealedIndices s) \<and> correctWord s ! i \<noteq> CHR '' ''}
     = length (unrevealedOf s)"
  unfolding set_unrevealedOf [symmetric] by (rule distinct_card [OF distinct_unrevealedOf])

lemma handleHint_nothing_left: "unrevealedOf s = [] \<Longrightarrow> handleHint random s = s"
  by (simp add: handleHint_def)

lemma handleHint_mono: "set (revealedIndices s) \<subseteq> set (revealedIndices (handleHint random s))"
  by (simp add: handleHint_def Let_def revealLoop_mono)

lemma handleHint_correctWord: "correctWord (handleHint random s) = correctWord s"
  by (simp add: handleHint_def Let_def)

lemma revealCountOf_le: "U \<noteq> [] \<Longrightarrow> revealCountOf U \<le> length U"
  unfolding revealCountOf_eq by (cases U) auto

lemma handleHint_spec:
  assumes "\<forall>j. 0 \<le> random j \<and> random j < 1" and "unrevealedOf s \<noteq> []"
  shows "\<exists>P. P \<subseteq> set (unrevealedOf s) \<and> card P = revealCountOf (unrevealedOf s) \<and>
              set (revealedIndices (handleHint random s)) = set (revealedIndices s) \<union> P"
proof -
  let ?U = "unrevealedOf s"
  have disj: "set ?U \<inter> set (revealedIndices s) = {}" by (auto simp: set_unrevealedOf)
  have le: "revealCountOf ?U - 0 \<le> length ?U" using assms(2) by (simp add: revealCountOf_le)
  have "\<exists>P. P \<subseteq> set ?U \<and> card P = revealCountOf ?U - 0 \<and>
      set (revealLoop random 0 (revealCountOf ?U) ?U (revealedIndices s)) = set (revealedIndices s) \<union> P"
    by (rule revealLoop_spec [OF assms(1) distinct_unrevealedOf disj le])
  then show ?thesis using assms(2) by (simp add: handleHint_def Let_def)
qed

lemma fold_handleHint_mono:
  "set (revealedIndices s) \<subseteq> set (revealedIndices (fold handleHint randoms s))"
proof (induction randoms arbitrary: s)
  case Nil
  show ?case by simp
next
  case (Cons r rs)
  have "set (revealedIndices s) \<subseteq> set (revealedIndices (handleHint r s))"
    by (rule handleHint_mono)
  also have "\<dots> \<subseteq> set (revealedIndices (fold handleHint rs (handleHint r s)))"
    by (rule Cons.IH)
  finally show ?case by simp
qed

lemma fold_handleHint_nothing_left:
  "unrevealedOf s = [] \<Longrightarrow> fold handleHint randoms s = s"
  by (induction randoms) (simp_all add: handleHint_nothing_left)

lemma dispatch_mono: "set (revealedIndices s) \<subseteq> set (revealedIndices (dispatch e s))"
proof (cases e)
  case (ClickHint random)
  then show ?thesis using handleHint_mono [of s random] by simp
next
  case SubmitForm
  then show ?thesis by (simp add: handleGuessSubmit_def Let_def)
qed simp


text \<open>
  Claim C4 (amended). When at least one non-space position of the word is unrevealed, one
  call of \<^verbatim>\<open>handleHint\<close> adds exactly \<open>max 1 (floor (n * 0.25))\<close> positions to
  \<^verbatim>\<open>revealedIndices\<close>, where \<open>n\<close> is the number of unrevealed non-space positions
  before the call; every added position was unrevealed and is not a space, nothing is
  removed, and \<^verbatim>\<open>hintsUsed\<close> grows by one.
\<close>

theorem hint_reveals_quarter_rounded_down:
  assumes "\<forall>j. 0 \<le> random j \<and> random j < 1"
    and "U = {i. i < length (correctWord s) \<and> i \<notin> set (revealedIndices s) \<and>
                 correctWord s ! i \<noteq> CHR '' ''}"
    and "U \<noteq> {}"
  shows "set (revealedIndices (handleHint random s)) - set (revealedIndices s) \<subseteq> U \<and>
         card (set (revealedIndices (handleHint random s)) - set (revealedIndices s))
           = max 1 (nat \<lfloor>real (card U) * 0.25\<rfloor>) \<and>
         set (revealedIndices s) \<subseteq> set (revealedIndices (handleHint random s)) \<and>
         hintsUsed (handleHint random s) = hintsUsed s + 1"
proof -
  have U: "U = set (unrevealedOf s)" by (simp add: assms(2) set_unrevealedOf)
  have cardU: "card U = length (unrevealedOf s)"
    unfolding assms(2) by (rule card_unrevealedOf)
  have ne: "unrevealedOf s \<noteq> []" using assms(3) U by auto
  obtain P where P: "P \<subseteq> set (unrevealedOf s)" "card P = revealCountOf (unrevealedOf s)"
    "set (revealedIndices (handleHint random s)) = set (revealedIndices s) \<union> P"
    using handleHint_spec [OF assms(1) ne] by blast
  have "P \<inter> set (revealedIndices s) = {}" using P(1) by (auto simp: set_unrevealedOf)
  then have new: "set (revealedIndices (handleHint random s)) - set (revealedIndices s) = P"
    unfolding P(3) by blast
  have count: "card P = max 1 (nat \<lfloor>real (card U) * 0.25\<rfloor>)"
    unfolding P(2) cardU by (simp only: revealCountOf_def)
  have hints: "hintsUsed (handleHint random s) = hintsUsed s + 1"
    using ne by (simp add: handleHint_def Let_def)
  show ?thesis
    unfolding new using P(1) count hints U handleHint_mono [of s random] by blast
qed

lemma iceCream_unrevealed:
  "{i. i < length (correctWord iceCreamRound) \<and> i \<notin> set (revealedIndices iceCreamRound) \<and>
       correctWord iceCreamRound ! i \<noteq> CHR '' ''} = {0, 1, 2, 4, 5, 6, 7, 8}"
proof -
  have "unrevealedOf iceCreamRound = [0, 1, 2, 4, 5, 6, 7, 8]" by code_simp
  then show ?thesis unfolding set_unrevealedOf [symmetric] by simp
qed

lemma randomHalf_range: "\<forall>j. 0 \<le> randomHalf j \<and> randomHalf j < 1"
  by (simp add: randomHalf_def)

lemma handleHint_randomHalf_iceCream:
  "handleHint randomHalf iceCreamRound = iceCreamRound\<lparr>hintsUsed := 1, revealedIndices := [5, 4]\<rparr>"
  by code_simp

theorem hint_reveals_quarter_rounded_down_witness:
  "card (set (revealedIndices (handleHint randomHalf iceCreamRound)) - set (revealedIndices iceCreamRound))
     = max 1 (nat \<lfloor>real (card {0, 1, 2, 4, 5, 6, 7, 8 :: nat}) * 0.25\<rfloor>) \<and>
   revealedIndices (handleHint randomHalf iceCreamRound) = [5, 4] \<and>
   revealedIndices iceCreamRound = [] \<and>
   hintsUsed (handleHint randomHalf iceCreamRound) = hintsUsed iceCreamRound + 1"
proof -
  have ne: "{0, 1, 2, 4, 5, 6, 7, 8 :: nat} \<noteq> {}" by simp
  note T = hint_reveals_quarter_rounded_down [OF randomHalf_range iceCream_unrevealed [symmetric] ne]
  have "revealedIndices (handleHint randomHalf iceCreamRound) = [5, 4]"
    by (simp add: handleHint_randomHalf_iceCream)
  moreover have "revealedIndices iceCreamRound = []"
    by (simp add: iceCreamRound_def dragonRound_def)
  ultimately show ?thesis using T by blast
qed

text \<open>
  With six unrevealed letters the rounded-up quarter is 2, and the hint reveals one.
\<close>

theorem hint_ceiling_counterexample:
  "length (unrevealedOf dragonRound) = 6 \<and>
   nat \<lceil>real (length (unrevealedOf dragonRound)) * 0.25\<rceil> = 2 \<and>
   revealedIndices dragonRound = [] \<and>
   revealedIndices (handleHint randomZero dragonRound) = [0] \<and>
   card (set (revealedIndices (handleHint randomZero dragonRound)) - set (revealedIndices dragonRound)) = 1"
proof -
  have a: "length (unrevealedOf dragonRound) = 6" by code_simp
  have b: "nat \<lceil>real (length (unrevealedOf dragonRound)) * 0.25\<rceil> = 2" by (simp add: a)
  have c: "revealedIndices dragonRound = []" by (simp add: dragonRound_def)
  have d: "revealedIndices (handleHint randomZero dragonRound) = [0]" by code_simp
  have e: "card (set (revealedIndices (handleHint randomZero dragonRound)) - set (revealedIndices dragonRound)) = 1"
    by (simp add: c d)
  from a b c d e show ?thesis by blast
qed

text \<open>
  Claim C6. A hint never adds the position of a space to \<^verbatim>\<open>revealedIndices\<close>; over
  any sequence of hints, and over any event of the page, \<^verbatim>\<open>revealedIndices\<close> only
  grows; and once every non-space position is revealed, further hints change nothing
  (neither \<^verbatim>\<open>revealedIndices\<close> nor \<^verbatim>\<open>hintsUsed\<close>).
\<close>

theorem hints_skip_spaces_grow_and_stop:
  "((\<forall>j. 0 \<le> random j \<and> random j < 1) \<longrightarrow>
      (\<forall>p\<in>set (revealedIndices (handleHint random s)) - set (revealedIndices s).
         p < length (correctWord s) \<and> correctWord s ! p \<noteq> CHR '' '')) \<and>
   set (revealedIndices s) \<subseteq> set (revealedIndices (fold handleHint randoms s)) \<and>
   set (revealedIndices s) \<subseteq> set (revealedIndices (dispatch e s)) \<and>
   ((\<forall>p<length (correctWord s). correctWord s ! p \<noteq> CHR '' '' \<longrightarrow> p \<in> set (revealedIndices s))
      \<longrightarrow> handleHint random s = s \<and> fold handleHint randoms s = s)"
proof (intro conjI impI)
  assume rnd: "\<forall>j. 0 \<le> random j \<and> random j < 1"
  show "\<forall>p\<in>set (revealedIndices (handleHint random s)) - set (revealedIndices s).
         p < length (correctWord s) \<and> correctWord s ! p \<noteq> CHR '' ''"
  proof (cases "unrevealedOf s = []")
    case True
    then show ?thesis by (simp add: handleHint_nothing_left)
  next
    case False
    from handleHint_spec [OF rnd False] obtain P where
      "P \<subseteq> set (unrevealedOf s)"
      "set (revealedIndices (handleHint random s)) = set (revealedIndices s) \<union> P"
      by blast
    then show ?thesis by (auto simp: set_unrevealedOf)
  qed
next
  show "set (revealedIndices s) \<subseteq> set (revealedIndices (fold handleHint randoms s))"
    by (rule fold_handleHint_mono)
next
  show "set (revealedIndices s) \<subseteq> set (revealedIndices (dispatch e s))"
    by (rule dispatch_mono)
next
  assume all: "\<forall>p<length (correctWord s). correctWord s ! p \<noteq> CHR '' '' \<longrightarrow> p \<in> set (revealedIndices s)"
  then have "set (unrevealedOf s) = {}" unfolding set_unrevealedOf by blast
  then have none: "unrevealedOf s = []" by simp
  show "handleHint random s = s" using none by (rule handleHint_nothing_left)
  show "fold handleHint randoms s = s" using none by (rule fold_handleHint_nothing_left)
qed

lemma revealedDragon_all:
  "\<forall>p<length (correctWord revealedDragonRound).
     correctWord revealedDragonRound ! p \<noteq> CHR '' '' \<longrightarrow> p \<in> set (revealedIndices revealedDragonRound)"
proof -
  have "\<forall>p<6. p \<in> {3, 0, 5, 1, 4, 2 :: nat}" by auto
  then show ?thesis by (simp add: revealedDragonRound_def dragonRound_def)
qed

theorem hints_skip_spaces_grow_and_stop_witness:
  "revealedIndices (handleHint randomHalf iceCreamRound) = [5, 4] \<and>
   correctWord iceCreamRound ! 3 = CHR '' '' \<and>
   correctWord iceCreamRound ! 5 \<noteq> CHR '' '' \<and> correctWord iceCreamRound ! 4 \<noteq> CHR '' '' \<and>
   set (revealedIndices iceCreamRound) \<subseteq> set (revealedIndices (fold handleHint [randomHalf, randomZero] iceCreamRound)) \<and>
   handleHint randomHalf revealedDragonRound = revealedDragonRound \<and>
   fold handleHint [randomHalf, randomZero] revealedDragonRound = revealedDragonRound"
proof -
  note T = hints_skip_spaces_grow_and_stop [of randomHalf iceCreamRound "[randomHalf, randomZero]" SubmitForm]
  note T' = hints_skip_spaces_grow_and_stop [of randomHalf revealedDragonRound "[randomHalf, randomZero]" SubmitForm]
  have r: "revealedIndices (handleHint randomHalf iceCreamRound) = [5, 4]"
    by (simp add: handleHint_randomHalf_iceCream)
  have old: "revealedIndices iceCreamRound = []" by (simp add: iceCreamRound_def dragonRound_def)
  have "\<forall>p\<in>set (revealedIndices (handleHint randomHalf iceCreamRound)) - set (revealedIndices iceCreamRound).
         p < length (correctWord iceCreamRound) \<and> correctWord iceCreamRound ! p \<noteq> CHR '' ''"
    using T randomHalf_range by blast
  then have a: "correctWord iceCreamRound ! 5 \<noteq> CHR '' ''" "correctWord iceCreamRound ! 4 \<noteq> CHR '' ''"
    unfolding r old by simp_all
  have sp: "correctWord iceCreamRound ! 3 = CHR '' ''" by (simp add: iceCreamRound_def)
  have b: "set (revealedIndices iceCreamRound) \<subseteq> set (revealedIndices (fold handleHint [randomHalf, randomZero] iceCreamRound))"
    using T by blast
  have c: "handleHint randomHalf revealedDragonRound = revealedDragonRound \<and>
      fold handleHint [randomHalf, randomZero] revealedDragonRound = revealedDragonRound"
    using T' revealedDragon_all by blast
  from r sp a b c show ?thesis by blast
qed


section \<open>Starting a game\<close>

lemma mset_shuffleArray:
  assumes "isOrderOf order array"
  shows "mset (shuffleArray order array) = mset array"
proof -
  have "mset (map (\<lambda>i. array ! i) order) = image_mset (\<lambda>i. array ! i) (mset order)" by simp
  also have "\<dots> = image_mset (\<lambda>i. array ! i) (mset [0..<length array])"
    using assms by (simp only: isOrderOf_def)
  also have "\<dots> = mset (map (\<lambda>i. array ! i) [0..<length array])" by simp
  also have "\<dots> = mset array" by (simp only: map_nth)
  finally show ?thesis by (simp only: shuffleArray_def)
qed

lemma length_gameCardsFrom: "length (gameCardsFrom index fs) = 2 * length fs"
  by (induction fs arbitrary: index) simp_all

lemma gameCardsFrom_face_down:
  "c \<in> set (gameCardsFrom index fs) \<Longrightarrow> \<not> isFlipped c \<and> \<not> isMatched c"
  by (induction fs arbitrary: index) auto

lemma card_id_gameCardsFrom:
  "map card_id (gameCardsFrom index fs) = [2 * index..<2 * index + 2 * length fs]"
proof (induction fs arbitrary: index)
  case Nil
  show ?case by simp
next
  case (Cons f fs)
  let ?hi = "2 * index + 2 * length (f # fs)"
  have a: "[2 * index..<?hi] = 2 * index # [Suc (2 * index)..<?hi]"
    by (rule upt_conv_Cons) simp
  have b: "[Suc (2 * index)..<?hi] = Suc (2 * index) # [Suc (Suc (2 * index))..<?hi]"
    by (rule upt_conv_Cons) simp
  have hi: "?hi = 2 * (index + 1) + 2 * length fs" by simp
  have lo: "Suc (Suc (2 * index)) = 2 * (index + 1)" by simp
  have c: "map card_id (gameCardsFrom (index + 1) fs) = [Suc (Suc (2 * index))..<?hi]"
    unfolding hi lo by (rule Cons.IH)
  show ?case unfolding a b c [symmetric] by simp
qed

lemma distinct_card_id_gameCardsFrom: "distinct (map card_id (gameCardsFrom index fs))"
  by (simp only: card_id_gameCardsFrom distinct_upt)

lemma pairId_gameCardsFrom:
  "c \<in> set (gameCardsFrom index fs) \<Longrightarrow> \<exists>f\<in>set fs. pairId c = fetched_word f"
  by (induction fs arbitrary: index) auto

lemma count_pairId_gameCardsFrom:
  "length (filter (\<lambda>c. pairId c = w) (gameCardsFrom index fs))
     = 2 * length (filter (\<lambda>f. fetched_word f = w) fs)"
  by (induction fs arbitrary: index) simp_all

lemma count_word_gameCardsFrom:
  "length (filter (\<lambda>c. pairId c = w \<and> card_type c = WordCard) (gameCardsFrom index fs))
     = length (filter (\<lambda>f. fetched_word f = w) fs)"
  by (induction fs arbitrary: index) simp_all

lemma count_image_gameCardsFrom:
  "length (filter (\<lambda>c. pairId c = w \<and> card_type c = ImageCard) (gameCardsFrom index fs))
     = length (filter (\<lambda>f. fetched_word f = w) fs)"
  by (induction fs arbitrary: index) simp_all

lemma length_filter_mset_eq:
  assumes "mset ys = mset xs"
  shows "length (filter P ys) = length (filter P xs)"
proof -
  have "mset (filter P ys) = mset (filter P xs)" using assms by (simp only: mset_filter)
  then show ?thesis by (rule mset_eq_length)
qed

lemma distinct_word_once:
  assumes "distinct (map fetched_word fs)" "f \<in> set fs"
  shows "length (filter (\<lambda>g. fetched_word g = fetched_word f) fs) = 1"
  using assms
proof (induction fs)
  case Nil
  then show ?case by simp
next
  case (Cons g fs)
  show ?case
  proof (cases "fetched_word g = fetched_word f")
    case True
    then have "fetched_word f \<notin> fetched_word ` set fs" using Cons.prems(1) by simp
    then have "filter (\<lambda>g. fetched_word g = fetched_word f) fs = []"
      by (auto simp: filter_empty_conv image_iff)
    with True show ?thesis by simp
  next
    case False
    then have "f \<in> set fs" using Cons.prems(2) by auto
    with Cons False show ?thesis by simp
  qed
qed

lemma catDog_order: "isOrderOf [2, 0, 3, 1] (gameCardsFrom 0 catDogPairs)"
  by code_simp

lemma start_catDogGame: "startNewGame (Inr catDogPairs) [2, 0, 3, 1] initialMemory = Inr catDogGame"
  by code_simp

text \<open>
  Claim C9 (amended). For every list of N (word, image) pairs, the started game has
  exactly 2 * N cards, all with \<^verbatim>\<open>isFlipped\<close> and \<^verbatim>\<open>isMatched\<close> false, and for
  every word as many word cards and as many image cards with that \<^verbatim>\<open>pairId\<close> as there
  are pairs with that word. When the words of the pairs are pairwise distinct, exactly
  two cards share each \<^verbatim>\<open>pairId\<close>, one word card and one image card.
\<close>

theorem start_deals_face_down_pairs:
  assumes "isOrderOf order (gameCardsFrom 0 fetchedCards)"
  shows "\<exists>s'. startNewGame (Inr fetchedCards) order s = Inr s' \<and>
           length (cards s') = 2 * length fetchedCards \<and>
           (\<forall>c\<in>set (cards s'). \<not> isFlipped c \<and> \<not> isMatched c) \<and>
           (\<forall>w. length (filter (\<lambda>c. pairId c = w \<and> card_type c = WordCard) (cards s'))
                  = length (filter (\<lambda>f. fetched_word f = w) fetchedCards) \<and>
                length (filter (\<lambda>c. pairId c = w \<and> card_type c = ImageCard) (cards s'))
                  = length (filter (\<lambda>f. fetched_word f = w) fetchedCards)) \<and>
           (distinct (map fetched_word fetchedCards) \<longrightarrow>
              (\<forall>c\<in>set (cards s').
                 length (filter (\<lambda>c'. pairId c' = pairId c) (cards s')) = 2 \<and>
                 length (filter (\<lambda>c'. pairId c' = pairId c \<and> card_type c' = WordCard) (cards s')) = 1 \<and>
                 length (filter (\<lambda>c'. pairId c' = pairId c \<and> card_type c' = ImageCard) (cards s')) = 1))"
proof -
  let ?G = "gameCardsFrom 0 fetchedCards"
  let ?s' = "s\<lparr>memoryState := MLoading, flippedCards := [],
               cards := shuffleArray order ?G, memoryState := MPlaying\<rparr>"
  have start: "startNewGame (Inr fetchedCards) order s = Inr ?s'"
    by (simp add: startNewGame_def)
  have cards: "cards ?s' = shuffleArray order ?G" by simp
  have ms: "mset (shuffleArray order ?G) = mset ?G" using assms by (rule mset_shuffleArray)
  have len: "length (shuffleArray order ?G) = 2 * length fetchedCards"
    using mset_eq_length [OF ms] by (simp only: length_gameCardsFrom)
  have set_eq: "set (shuffleArray order ?G) = set ?G" using ms by (rule mset_eq_setD)
  have down: "\<forall>c\<in>set (shuffleArray order ?G). \<not> isFlipped c \<and> \<not> isMatched c"
    unfolding set_eq using gameCardsFrom_face_down by blast
  have word: "length (filter (\<lambda>c. pairId c = w \<and> card_type c = WordCard) (shuffleArray order ?G))
      = length (filter (\<lambda>f. fetched_word f = w) fetchedCards)" for w
    unfolding length_filter_mset_eq [OF ms] by (rule count_word_gameCardsFrom)
  have image: "length (filter (\<lambda>c. pairId c = w \<and> card_type c = ImageCard) (shuffleArray order ?G))
      = length (filter (\<lambda>f. fetched_word f = w) fetchedCards)" for w
    unfolding length_filter_mset_eq [OF ms] by (rule count_image_gameCardsFrom)
  have both: "length (filter (\<lambda>c. pairId c = w) (shuffleArray order ?G))
      = 2 * length (filter (\<lambda>f. fetched_word f = w) fetchedCards)" for w
    unfolding length_filter_mset_eq [OF ms] by (rule count_pairId_gameCardsFrom)
  have once: "length (filter (\<lambda>f. fetched_word f = pairId c) fetchedCards) = 1"
    if "distinct (map fetched_word fetchedCards)" "c \<in> set (shuffleArray order ?G)" for c
  proof -
    from that(2) obtain f where f: "f \<in> set fetchedCards" "pairId c = fetched_word f"
      unfolding set_eq using pairId_gameCardsFrom by blast
    show ?thesis unfolding f(2) using that(1) f(1) by (rule distinct_word_once)
  qed
  have pairs: "distinct (map fetched_word fetchedCards) \<longrightarrow>
      (\<forall>c\<in>set (shuffleArray order ?G).
         length (filter (\<lambda>c'. pairId c' = pairId c) (shuffleArray order ?G)) = 2 \<and>
         length (filter (\<lambda>c'. pairId c' = pairId c \<and> card_type c' = WordCard) (shuffleArray order ?G)) = 1 \<and>
         length (filter (\<lambda>c'. pairId c' = pairId c \<and> card_type c' = ImageCard) (shuffleArray order ?G)) = 1)"
    by (simp add: word image both once)
  show ?thesis
    unfolding start using len down word image pairs by (intro exI [of _ ?s']) (simp only: cards, blast)
qed

lemma catDogGame_cards_eval:
  "length (cards catDogGame) = 4 \<and>
   count_list (map pairId (cards catDogGame)) ''cat'' = 2 \<and>
   count_list (map pairId (cards catDogGame)) ''dog'' = 2"
  by code_simp

theorem start_deals_face_down_pairs_witness:
  "isOrderOf [2, 0, 3, 1] (gameCardsFrom 0 catDogPairs) \<and>
   startNewGame (Inr catDogPairs) [2, 0, 3, 1] initialMemory = Inr catDogGame \<and>
   length (cards catDogGame) = 2 * length catDogPairs \<and>
   length (cards catDogGame) = 4 \<and>
   count_list (map pairId (cards catDogGame)) ''cat'' = 2 \<and>
   count_list (map pairId (cards catDogGame)) ''dog'' = 2"
proof -
  from start_deals_face_down_pairs [OF catDog_order, of initialMemory]
  obtain s' where s': "startNewGame (Inr catDogPairs) [2, 0, 3, 1] initialMemory = Inr s'"
    "length (cards s') = 2 * length catDogPairs"
    by blast
  from s'(1) have "s' = catDogGame" by (simp only: start_catDogGame sum.inject)
  with s'(2) have "length (cards catDogGame) = 2 * length catDogPairs" by simp
  with catDog_order start_catDogGame catDogGame_cards_eval show ?thesis by blast
qed

text \<open>Two pairs with the same word give four cards with one \<^verbatim>\<open>pairId\<close>.\<close>

theorem repeated_word_counterexample:
  "isOrderOf [0, 1, 2, 3] (gameCardsFrom 0 twoCatsPairs) \<and>
   startNewGame (Inr twoCatsPairs) [0, 1, 2, 3] initialMemory = Inr twoCatsGame \<and>
   length twoCatsPairs = 2 \<and>
   map pairId (cards twoCatsGame) = [''cat'', ''cat'', ''cat'', ''cat''] \<and>
   count_list (map pairId (cards twoCatsGame)) ''cat'' = 4"
  by code_simp

lemma start_rejected_with_undefined:
  "startNewChallenge rejectsWithUndefined (Some Hard) dragonRound =
     Inl (TypeError, dragonRound\<lparr>difficulty := Some Hard, gameState := Loading\<rparr>)"
  by (simp add: startNewChallenge_def rejectsWithUndefined_def message_def dragonRound_def)

text \<open>
  Claim C3 (amended). When the content source fails during start: on the blurry-image page
  the round is left in a state that is not \<open>Playing\<close>, whatever the failure; when the
  source rejects with an error object (any value but \<^verbatim>\<open>undefined\<close> and \<^verbatim>\<open>null\<close>),
  the failure is caught, no exception leaves the call and the state is \<open>Idle\<close>. In the
  memory game the failure is always caught and no exception leaves the call, and the game
  is left in its playing state (the fallback of the \<^verbatim>\<open>catch\<close> block), with the cards
  it had and nothing selected.
\<close>

theorem failed_start_is_caught:
  "(generateChallenge d = Inl e \<and> e \<noteq> Nullish \<longrightarrow>
      (\<exists>s'. startNewChallenge generateChallenge (Some d) s = Inr s' \<and> gameState s' = Idle)) \<and>
   (generateChallenge d = Inl e \<longrightarrow>
      (case startNewChallenge generateChallenge (Some d) s of
         Inr s' \<Rightarrow> gameState s' \<noteq> Playing
       | Inl (thrown, s') \<Rightarrow> gameState s' \<noteq> Playing)) \<and>
   (\<exists>m'. startNewGame (Inl e') order m = Inr m' \<and> memoryState m' = MPlaying \<and>
          cards m' = cards m \<and> flippedCards m' = [])"
proof (intro conjI impI)
  assume "generateChallenge d = Inl e \<and> e \<noteq> Nullish"
  then show "\<exists>s'. startNewChallenge generateChallenge (Some d) s = Inr s' \<and> gameState s' = Idle"
    by (cases e) (simp_all add: startNewChallenge_def message_def)
next
  assume "generateChallenge d = Inl e"
  then show "case startNewChallenge generateChallenge (Some d) s of
         Inr s' \<Rightarrow> gameState s' \<noteq> Playing
       | Inl (thrown, s') \<Rightarrow> gameState s' \<noteq> Playing"
    by (cases e) (simp_all add: startNewChallenge_def message_def)
next
  show "\<exists>m'. startNewGame (Inl e') order m = Inr m' \<and> memoryState m' = MPlaying \<and>
          cards m' = cards m \<and> flippedCards m' = []"
    by (simp add: startNewGame_def)
qed

theorem failed_start_is_caught_witness:
  "offline Hard = Inl (Error ''offline'') \<and> Error ''offline'' \<noteq> Nullish \<and>
   map_sum id gameState (startNewChallenge offline (Some Hard) dragonRound) = Inr Idle \<and>
   rejectsWithUndefined Hard = Inl Nullish \<and>
   gameState (dragonRound\<lparr>difficulty := Some Hard, gameState := Loading\<rparr>) \<noteq> Playing \<and>
   map_sum id memoryState (startNewGame (Inl (Error ''offline'')) [] catDogGame) = Inr MPlaying \<and>
   map_sum id cards (startNewGame (Inl (Error ''offline'')) [] catDogGame) = Inr (cards catDogGame)"
proof -
  note T = failed_start_is_caught [of offline Hard "Error ''offline''" dragonRound
      "Error ''offline''" "[]" catDogGame]
  note U = failed_start_is_caught [of rejectsWithUndefined Hard Nullish dragonRound
      "Error ''offline''" "[]" catDogGame]
  have off: "offline Hard = Inl (Error ''offline'')" by (simp add: offline_def)
  have ne: "Error ''offline'' \<noteq> Nullish" by simp
  from T off ne obtain s' where s': "startNewChallenge offline (Some Hard) dragonRound = Inr s'"
    "gameState s' = Idle" by blast
  have rej: "rejectsWithUndefined Hard = Inl Nullish" by (simp add: rejectsWithUndefined_def)
  have "case startNewChallenge rejectsWithUndefined (Some Hard) dragonRound of
         Inr s' \<Rightarrow> gameState s' \<noteq> Playing
       | Inl (thrown, s') \<Rightarrow> gameState s' \<noteq> Playing"
    using U rej by blast
  then have stuck: "gameState (dragonRound\<lparr>difficulty := Some Hard, gameState := Loading\<rparr>) \<noteq> Playing"
    unfolding start_rejected_with_undefined by simp
  from T obtain m' where m': "startNewGame (Inl (Error ''offline'')) [] catDogGame = Inr m'"
    "memoryState m' = MPlaying" "cards m' = cards catDogGame" by blast
  show ?thesis using off ne s' rej stuck m' by simp
qed

text \<open>A failed start of the memory game ends in the playing state.\<close>

theorem memory_start_failure_counterexample:
  "startNewGame (Inl (Error ''offline'')) [] initialMemory = Inr (initialMemory\<lparr>memoryState := MPlaying\<rparr>) \<and>
   memoryState (initialMemory\<lparr>memoryState := MPlaying\<rparr>) = MPlaying"
  by (simp add: startNewGame_def initialMemory_def)

section \<open>Invariants of the memory game\<close>

lemma memoryInv_initial: "memoryInv initialMemory"
  by (simp add: memoryInv_def initialMemory_def)

lemma memoryInv_startNewGame:
  assumes "memoryInv s"
    and "\<And>fetchedCards. response = Inr fetchedCards \<Longrightarrow> isOrderOf order (gameCardsFrom 0 fetchedCards)"
    and "startNewGame response order s = Inr s'"
  shows "memoryInv s'"
proof (cases response)
  case (Inl e)
  then have "s' = s\<lparr>memoryState := MPlaying, flippedCards := []\<rparr>"
    using assms(3) by (auto simp: startNewGame_def)
  then show ?thesis using assms(1) by (simp add: memoryInv_def)
next
  case (Inr fetchedCards)
  let ?G = "gameCardsFrom 0 fetchedCards"
  have s': "cards s' = shuffleArray order ?G" "flippedCards s' = []"
    using assms(3) Inr by (auto simp: startNewGame_def)
  have ms: "mset (shuffleArray order ?G) = mset ?G"
    using assms(2) [OF Inr] by (rule mset_shuffleArray)
  have "mset (map card_id (shuffleArray order ?G)) = mset (map card_id ?G)"
    using ms by (metis mset_map)
  then have d: "distinct (map card_id (shuffleArray order ?G))"
    using distinct_card_id_gameCardsFrom [of 0 fetchedCards] by (metis mset_eq_imp_distinct_iff)
  have "\<forall>c\<in>set (shuffleArray order ?G). \<not> isMatched c"
    using mset_eq_setD [OF ms] gameCardsFrom_face_down by blast
  then show ?thesis using d by (simp add: memoryInv_def s')
qed

lemma find_card_id:
  assumes "c \<in> set cs" "distinct (map card_id cs)"
  shows "find (\<lambda>c'. card_id c' = card_id c) cs = Some c"
  using assms
proof (induction cs)
  case Nil
  then show ?case by simp
next
  case (Cons a cs)
  show ?case
  proof (cases "a = c")
    case True
    then show ?thesis by simp
  next
    case False
    then have c: "c \<in> set cs" using Cons.prems(1) by simp
    then have "card_id a \<noteq> card_id c" using Cons.prems(2) by auto
    with Cons c show ?thesis by simp
  qed
qed

lemma same_card_id:
  assumes "distinct (map card_id cs)" "c \<in> set cs" "c' \<in> set cs" "card_id c' = card_id c"
  shows "c' = c"
  using assms by (meson distinct_map inj_onD)

lemma memoryInv_map_cards:
  assumes inv: "memoryInv s"
    and id: "\<And>x. card_id (f x) = card_id x"
    and sel: "\<And>x. x \<in> set (cards s) \<Longrightarrow> card_id x \<in> set fl \<Longrightarrow> isFlipped (f x) \<and> \<not> isMatched (f x)"
    and mf: "\<And>x. x \<in> set (cards s) \<Longrightarrow> isMatched (f x) \<Longrightarrow> isFlipped (f x)"
    and fl: "distinct fl" "length fl \<le> 2" "set fl \<subseteq> card_id ` set (cards s)"
  shows "memoryInv (s\<lparr>cards := map f (cards s), flippedCards := fl\<rparr>)"
proof -
  have ids: "map card_id (map f (cards s)) = map card_id (cards s)"
    by (simp add: id)
  have d: "distinct (map card_id (cards s))" using inv by (simp add: memoryInv_def)
  have 1: "distinct (map card_id (map f (cards s)))" unfolding ids by (rule d)
  have img: "card_id ` set (map f (cards s)) = card_id ` set (cards s)"
    using arg_cong [OF ids, of set] by (simp only: set_map)
  have 4: "set fl \<subseteq> card_id ` set (map f (cards s))" unfolding img by (rule fl(3))
  have 5: "\<forall>c'\<in>set (map f (cards s)). card_id c' \<in> set fl \<longrightarrow> isFlipped c' \<and> \<not> isMatched c'"
  proof
    fix c' assume "c' \<in> set (map f (cards s))"
    then obtain x where x: "x \<in> set (cards s)" "c' = f x" by (auto simp only: set_map)
    show "card_id c' \<in> set fl \<longrightarrow> isFlipped c' \<and> \<not> isMatched c'"
      unfolding x(2) id using sel [OF x(1)] by blast
  qed
  have 6: "\<forall>c'\<in>set (map f (cards s)). isMatched c' \<longrightarrow> isFlipped c'"
  proof
    fix c' assume "c' \<in> set (map f (cards s))"
    then obtain x where x: "x \<in> set (cards s)" "c' = f x" by (auto simp only: set_map)
    show "isMatched c' \<longrightarrow> isFlipped c'" unfolding x(2) using mf [OF x(1)] by blast
  qed
  have c: "cards (s\<lparr>cards := map f (cards s), flippedCards := fl\<rparr>) = map f (cards s)"
    and f: "flippedCards (s\<lparr>cards := map f (cards s), flippedCards := fl\<rparr>) = fl"
    by simp_all
  show ?thesis unfolding memoryInv_def c f using 1 fl(1,2) 4 5 6 by blast
qed

lemma handleCardClick_face_up:
  assumes "distinct (map card_id (cards s))" "c \<in> set (cards s)"
  shows "handleCardClick (card_id c) s =
           (if isChecking s \<or> length (flippedCards s) = 2 \<or> isFlipped c then s
            else s\<lparr>cards := map (\<lambda>c'. if card_id c' = card_id c then c'\<lparr>isFlipped := True\<rparr> else c')
                                (cards s),
                   flippedCards := flippedCards s @ [card_id c]\<rparr>)"
  by (simp add: handleCardClick_def find_card_id [OF assms(2,1)])

lemma memoryInv_handleCardClick:
  assumes inv: "memoryInv s" and c: "c \<in> set (cards s)"
  shows "memoryInv (handleCardClick (card_id c) s)"
proof (cases "isChecking s \<or> length (flippedCards s) = 2 \<or> isFlipped c")
  case True
  have d: "distinct (map card_id (cards s))" using inv by (simp add: memoryInv_def)
  have "handleCardClick (card_id c) s = s"
    unfolding handleCardClick_face_up [OF d c] using True by simp
  then show ?thesis using inv by simp
next
  case False
  define f :: "GameCard \<Rightarrow> GameCard" where "f = (\<lambda>c'. if card_id c' = card_id c then c'\<lparr>isFlipped := True\<rparr> else c')"
  have d: "distinct (map card_id (cards s))"
    and df: "distinct (flippedCards s)"
    and len: "length (flippedCards s) \<le> 2"
    and sub: "set (flippedCards s) \<subseteq> card_id ` set (cards s)"
    and sel: "\<forall>c'\<in>set (cards s). card_id c' \<in> set (flippedCards s) \<longrightarrow> isFlipped c' \<and> \<not> isMatched c'"
    and mf: "\<forall>c'\<in>set (cards s). isMatched c' \<longrightarrow> isFlipped c'"
    using inv by (simp_all add: memoryInv_def)
  have step: "handleCardClick (card_id c) s =
      s\<lparr>cards := map f (cards s), flippedCards := flippedCards s @ [card_id c]\<rparr>"
    unfolding handleCardClick_face_up [OF d c] f_def using False by simp
  have new: "card_id c \<notin> set (flippedCards s)" using sel c False by blast
  have unmatched: "\<not> isMatched c" using mf c False by blast
  have only: "x = c" if "x \<in> set (cards s)" "card_id x = card_id c" for x
    using d c that by (rule same_card_id)
  show ?thesis unfolding step
  proof (rule memoryInv_map_cards [OF inv])
    show "card_id (f x) = card_id x" for x by (simp add: f_def)
    show "isFlipped (f x) \<and> \<not> isMatched (f x)"
      if "x \<in> set (cards s)" "card_id x \<in> set (flippedCards s @ [card_id c])" for x
    proof (cases "card_id x = card_id c")
      case True
      then have "x = c" using that(1) by (intro only)
      then show ?thesis using unmatched by (simp add: f_def)
    next
      case neq: False
      then have "card_id x \<in> set (flippedCards s)" using that(2) by simp
      then show ?thesis using sel that(1) neq by (simp add: f_def)
    qed
    show "isFlipped (f x)" if "x \<in> set (cards s)" "isMatched (f x)" for x
      using mf that by (cases "card_id x = card_id c") (simp_all add: f_def)
    show "distinct (flippedCards s @ [card_id c])" using df new by simp
    show "length (flippedCards s @ [card_id c]) \<le> 2" using len False by simp
    show "set (flippedCards s @ [card_id c]) \<subseteq> card_id ` set (cards s)"
      using sub c by (simp only: set_append list.set) blast
  qed
qed


lemma matched_branch_inv:
  assumes inv: "memoryInv s"
  shows "memoryInv (s\<lparr>cards := map (\<lambda>c. if card_id c \<in> set (flippedCards s) then c\<lparr>isMatched := True\<rparr> else c) (cards s),
                     flippedCards := []\<rparr>)"
proof -
  have sel: "\<forall>c'\<in>set (cards s). card_id c' \<in> set (flippedCards s) \<longrightarrow> isFlipped c' \<and> \<not> isMatched c'"
    and mf: "\<forall>c'\<in>set (cards s). isMatched c' \<longrightarrow> isFlipped c'"
    using inv by (simp_all add: memoryInv_def)
  define m :: "GameCard \<Rightarrow> GameCard"
    where "m = (\<lambda>c. if card_id c \<in> set (flippedCards s) then c\<lparr>isMatched := True\<rparr> else c)"
  have "memoryInv (s\<lparr>cards := map m (cards s), flippedCards := []\<rparr>)"
  proof (rule memoryInv_map_cards [OF inv])
    show "card_id (m x) = card_id x" for x by (simp add: m_def)
    show "isFlipped (m x)" if "x \<in> set (cards s)" "isMatched (m x)" for x
    proof (cases "card_id x \<in> set (flippedCards s)")
      case True
      then have "isFlipped x" using sel that(1) by blast
      then show ?thesis by (simp add: m_def)
    next
      case False
      then have "m x = x" by (simp add: m_def)
      then show ?thesis using mf that by simp
    qed
    show "isFlipped (m x) \<and> \<not> isMatched (m x)" if "card_id x \<in> set []" for x
      using that by simp
    show "distinct ([] :: nat list)" by simp
    show "length ([] :: nat list) \<le> 2" by simp
    show "set ([] :: nat list) \<subseteq> card_id ` set (cards s)" by simp
  qed
  then show ?thesis unfolding m_def .
qed

lemma mismatched_branch_inv:
  assumes inv: "memoryInv s"
  shows "memoryInv (s\<lparr>cards := map (\<lambda>c. if card_id c \<in> set (flippedCards s) then c\<lparr>isFlipped := False\<rparr> else c) (cards s),
                     flippedCards := []\<rparr>)"
proof -
  have sel: "\<forall>c'\<in>set (cards s). card_id c' \<in> set (flippedCards s) \<longrightarrow> isFlipped c' \<and> \<not> isMatched c'"
    and mf: "\<forall>c'\<in>set (cards s). isMatched c' \<longrightarrow> isFlipped c'"
    using inv by (simp_all add: memoryInv_def)
  define m :: "GameCard \<Rightarrow> GameCard"
    where "m = (\<lambda>c. if card_id c \<in> set (flippedCards s) then c\<lparr>isFlipped := False\<rparr> else c)"
  have "memoryInv (s\<lparr>cards := map m (cards s), flippedCards := []\<rparr>)"
  proof (rule memoryInv_map_cards [OF inv])
    show "card_id (m x) = card_id x" for x by (simp add: m_def)
    show "isFlipped (m x)" if "x \<in> set (cards s)" "isMatched (m x)" for x
    proof (cases "card_id x \<in> set (flippedCards s)")
      case True
      then have "\<not> isMatched x" using sel that(1) by blast
      moreover have "isMatched (m x) = isMatched x" by (simp add: m_def)
      ultimately show ?thesis using that(2) by simp
    next
      case False
      then have "m x = x" by (simp add: m_def)
      then show ?thesis using mf that by simp
    qed
    show "isFlipped (m x) \<and> \<not> isMatched (m x)" if "card_id x \<in> set []" for x
      using that by simp
    show "distinct ([] :: nat list)" by simp
    show "length ([] :: nat list) \<le> 2" by simp
    show "set ([] :: nat list) \<subseteq> card_id ` set (cards s)" by simp
  qed
  then show ?thesis unfolding m_def .
qed


lemma checkMatch_cases:
  assumes "checkMatch s = Inr s'"
  shows "s' = s \<or>
         s' = s\<lparr>cards := map (\<lambda>c. if card_id c \<in> set (flippedCards s) then c\<lparr>isMatched := True\<rparr> else c)
                             (cards s), flippedCards := [], isChecking := False\<rparr> \<or>
         s' = s\<lparr>cards := map (\<lambda>c. if card_id c \<in> set (flippedCards s) then c\<lparr>isFlipped := False\<rparr> else c)
                             (cards s), flippedCards := [], isChecking := False\<rparr>"
  using assms by (auto simp: checkMatch_def split: if_splits list.splits)

lemma memoryInv_isChecking: "memoryInv (s\<lparr>isChecking := b\<rparr>) = memoryInv s"
  by (simp add: memoryInv_def)

lemma memoryInv_checkMatch:
  assumes inv: "memoryInv s" and ok: "checkMatch s = Inr s'"
  shows "memoryInv s'"
proof -
  from checkMatch_cases [OF ok] consider (same) "s' = s"
    | (match) "s' = s\<lparr>cards := map (\<lambda>c. if card_id c \<in> set (flippedCards s) then c\<lparr>isMatched := True\<rparr> else c)
                             (cards s), flippedCards := [], isChecking := False\<rparr>"
    | (mismatch) "s' = s\<lparr>cards := map (\<lambda>c. if card_id c \<in> set (flippedCards s) then c\<lparr>isFlipped := False\<rparr> else c)
                             (cards s), flippedCards := [], isChecking := False\<rparr>"
    by blast
  then show ?thesis
  proof cases
    case same
    then show ?thesis using inv by simp
  next
    case match
    show ?thesis unfolding match memoryInv_isChecking by (rule matched_branch_inv [OF inv])
  next
    case mismatch
    show ?thesis unfolding mismatch memoryInv_isChecking by (rule mismatched_branch_inv [OF inv])
  qed
qed

lemma memoryInv_completeGame: "memoryInv s \<Longrightarrow> memoryInv (completeGame s)"
  by (simp add: completeGame_def memoryInv_def)

lemma reachableMemory_inv: "reachableMemory s \<Longrightarrow> memoryInv s"
proof (induction rule: reachableMemory.induct)
  case mountedM
  show ?case by (rule memoryInv_initial)
next
  case (startedM s response order s')
  show ?case by (rule memoryInv_startNewGame [OF startedM.IH startedM.hyps(2,3)])
next
  case (clicked s c)
  show ?case by (rule memoryInv_handleCardClick [OF clicked.IH clicked.hyps(2)])
next
  case (evaluated s s')
  show ?case by (rule memoryInv_checkMatch [OF evaluated.IH evaluated.hyps(2)])
next
  case (completed s)
  show ?case by (rule memoryInv_completeGame [OF completed.IH])
qed

lemma handleCardClick_ignored: "clickIgnored cardId s \<Longrightarrow> handleCardClick cardId s = s"
  by (simp add: clickIgnored_def handleCardClick_def)

lemma two_selected_cards:
  assumes inv: "memoryInv s" and two: "length (flippedCards s) = 2"
  shows "\<exists>firstCard secondCard others.
           filter (\<lambda>c. card_id c \<in> set (flippedCards s)) (cards s) = firstCard # secondCard # others"
proof -
  let ?sel = "filter (\<lambda>c. card_id c \<in> set (flippedCards s)) (cards s)"
  from two obtain a b where ab: "flippedCards s = [a, b]"
    by (auto simp: length_Suc_conv numeral_2_eq_2)
  have "distinct (flippedCards s)" "set (flippedCards s) \<subseteq> card_id ` set (cards s)"
    using inv by (simp_all add: memoryInv_def)
  then have ne: "a \<noteq> b" and "a \<in> card_id ` set (cards s)" "b \<in> card_id ` set (cards s)"
    unfolding ab by simp_all
  then obtain ca cb where c: "ca \<in> set (cards s)" "card_id ca = a" "cb \<in> set (cards s)" "card_id cb = b"
    by blast
  have "ca \<noteq> cb" using ne c by blast
  moreover have "ca \<in> set ?sel" "cb \<in> set ?sel" using c ab by simp_all
  ultimately have "card {ca, cb} = 2" "{ca, cb} \<subseteq> set ?sel" by simp_all
  then have "2 \<le> card (set ?sel)" by (metis card_mono List.finite_set)
  also have "\<dots> \<le> length ?sel" by (rule card_length)
  finally have "2 \<le> length ?sel" .
  then show ?thesis
    by (cases ?sel; cases "tl ?sel") auto
qed

lemma checkMatch_clears:
  assumes inv: "memoryInv s" and two: "length (flippedCards s) = 2"
  shows "\<exists>s'. checkMatch s = Inr s' \<and> flippedCards s' = []"
proof -
  from two_selected_cards [OF inv two] obtain firstCard secondCard others where
    sel: "filter (\<lambda>c. card_id c \<in> set (flippedCards s)) (cards s) = firstCard # secondCard # others"
    by blast
  show ?thesis
    by (cases "pairId firstCard = pairId secondCard") (simp_all add: checkMatch_def two sel)
qed

lemma flip_reachable:
  assumes r: "reachableMemory s" and c: "c \<in> set (cards s)"
  shows "\<exists>s'. flip (card_id c) s = Inr s'"
proof (cases "clickIgnored (card_id c) s")
  case True
  then show ?thesis by (simp add: flip_def)
next
  case False
  let ?s1 = "handleCardClick (card_id c) s"
  have inv1: "memoryInv ?s1"
    using reachableMemory.clicked [OF r c] by (rule reachableMemory_inv)
  show ?thesis
  proof (cases "length (flippedCards ?s1) = 2")
    case True
    from checkMatch_clears [OF inv1 True] obtain s' where "checkMatch ?s1 = Inr s'" by blast
    then show ?thesis using False True by (simp add: flip_def)
  next
    case no: False
    then show ?thesis using False by (simp add: flip_def)
  qed
qed

lemma face_up_ignored:
  assumes r: "reachableMemory s" and c: "c \<in> set (cards s)" and up: "isFlipped c"
  shows "clickIgnored (card_id c) s"
proof -
  have "distinct (map card_id (cards s))"
    using reachableMemory_inv [OF r] by (simp add: memoryInv_def)
  then show ?thesis using up by (simp add: clickIgnored_def find_card_id [OF c])
qed

lemma handleCardClick_matched_flipped:
  assumes "\<forall>c\<in>set (cards s). isMatched c \<longrightarrow> isFlipped c"
  shows "\<forall>c\<in>set (cards (handleCardClick cardId s)). isMatched c \<longrightarrow> isFlipped c"
proof (cases "clickIgnored cardId s")
  case True
  then show ?thesis using assms by (simp add: handleCardClick_ignored)
next
  case False
  then have step: "cards (handleCardClick cardId s) =
      map (\<lambda>c. if card_id c = cardId then c\<lparr>isFlipped := True\<rparr> else c) (cards s)"
    by (simp add: clickIgnored_def handleCardClick_def)
  show ?thesis
  proof
    fix c assume "c \<in> set (cards (handleCardClick cardId s))"
    then obtain x where x: "x \<in> set (cards s)"
      "c = (if card_id x = cardId then x\<lparr>isFlipped := True\<rparr> else x)"
      unfolding step by (auto simp only: set_map)
    show "isMatched c \<longrightarrow> isFlipped c"
      using assms x(1) unfolding x(2) by (cases "card_id x = cardId") simp_all
  qed
qed

lemma reachable_catDogGame: "reachableMemory catDogGame"
proof (rule reachableMemory.startedM [OF reachableMemory.mountedM _ start_catDogGame])
  fix fetchedCards
  assume "(Inr catDogPairs :: error + FetchedCard list) = Inr fetchedCards"
  then have "fetchedCards = catDogPairs" by simp
  then show "isOrderOf [2, 0, 3, 1] (gameCardsFrom 0 fetchedCards)"
    by (simp only: catDog_order)
qed

lemma catWord_card: "cards catDogGame ! 1 \<in> set (cards catDogGame) \<and> card_id (cards catDogGame ! 1) = 0"
  by (simp add: catDogGame_def)

lemma dogImage_card: "cards oneUpGame ! 2 \<in> set (cards oneUpGame) \<and> card_id (cards oneUpGame ! 2) = 3"
  by code_simp

lemma catImage_card: "cards oneUpGame ! 3 \<in> set (cards oneUpGame) \<and> card_id (cards oneUpGame ! 3) = 1"
  by code_simp

lemma reachable_oneUpGame: "reachableMemory oneUpGame"
  using reachableMemory.clicked [OF reachable_catDogGame, of "cards catDogGame ! 1"] catWord_card
  by (simp add: oneUpGame_def)

lemma reachable_mismatchedGame: "reachableMemory mismatchedGame"
  using reachableMemory.clicked [OF reachable_oneUpGame, of "cards oneUpGame ! 2"] dogImage_card
  by (simp add: mismatchedGame_def)


section \<open>Clicks and pair evaluation in the memory game\<close>

text \<open>
  Claim C2 (amended). A click that the guard of \<^verbatim>\<open>handleCardClick\<close> rejects (an
  evaluation is pending, two cards are already selected, or the card with that id is
  already face up) changes nothing, starts no evaluation and throws nothing; in
  particular a second click on a face-up card of a reachable game is a no-op. A click on
  any card of the array, in any reachable state, together with the evaluation it
  triggers, never throws. An id that matches no card is outside this statement: the
  page never passes one, and the handler does not reject it.
\<close>

theorem guarded_clicks_change_nothing_and_card_clicks_never_throw:
  "(clickIgnored cardId s \<longrightarrow> handleCardClick cardId s = s \<and> flip cardId s = Inr s) \<and>
   (reachableMemory s \<and> c \<in> set (cards s) \<and> isFlipped c \<longrightarrow>
      handleCardClick (card_id c) s = s \<and> flip (card_id c) s = Inr s) \<and>
   (reachableMemory s \<and> c \<in> set (cards s) \<longrightarrow> (\<exists>s'. flip (card_id c) s = Inr s'))"
proof (intro conjI impI)
  assume g: "clickIgnored cardId s"
  show "handleCardClick cardId s = s" using g by (rule handleCardClick_ignored)
  show "flip cardId s = Inr s" using g by (simp add: flip_def)
next
  assume a: "reachableMemory s \<and> c \<in> set (cards s) \<and> isFlipped c"
  then have g: "clickIgnored (card_id c) s" by (intro face_up_ignored) blast+
  show "handleCardClick (card_id c) s = s" using g by (rule handleCardClick_ignored)
  show "flip (card_id c) s = Inr s" using g by (simp add: flip_def)
next
  assume "reachableMemory s \<and> c \<in> set (cards s)"
  then show "\<exists>s'. flip (card_id c) s = Inr s'" by (intro flip_reachable) blast+
qed

theorem guarded_clicks_change_nothing_and_card_clicks_never_throw_witness:
  "clickIgnored 0 oneUpGame \<and> flip 0 oneUpGame = Inr oneUpGame \<and>
   isFlipped (cards oneUpGame ! 1) \<and> card_id (cards oneUpGame ! 1) = 0 \<and>
   handleCardClick (card_id (cards oneUpGame ! 1)) oneUpGame = oneUpGame \<and>
   (\<exists>s'. flip (card_id (cards oneUpGame ! 3)) oneUpGame = Inr s') \<and>
   flip 1 oneUpGame = Inr catsMatchedGame"
proof -
  note T = guarded_clicks_change_nothing_and_card_clicks_never_throw
  have g: "clickIgnored 0 oneUpGame" by code_simp
  have a: "flip 0 oneUpGame = Inr oneUpGame" using T [of 0 oneUpGame] g by blast
  have up: "cards oneUpGame ! 1 \<in> set (cards oneUpGame)" "isFlipped (cards oneUpGame ! 1)"
    "card_id (cards oneUpGame ! 1) = 0"
    by code_simp+
  have b: "handleCardClick (card_id (cards oneUpGame ! 1)) oneUpGame = oneUpGame"
    using T [of _ oneUpGame "cards oneUpGame ! 1"] reachable_oneUpGame up(1,2) by blast
  have c: "\<exists>s'. flip (card_id (cards oneUpGame ! 3)) oneUpGame = Inr s'"
    using T [of _ oneUpGame "cards oneUpGame ! 3"] reachable_oneUpGame catImage_card by blast
  have d: "flip 1 oneUpGame = Inr catsMatchedGame" by code_simp
  from g a up(2,3) b c d show ?thesis by blast
qed

text \<open>
  The id 99 matches no card of the cat and dog game: the click records it as selected,
  and the evaluation that follows the second selection throws.
\<close>

theorem unknown_card_id_counterexample:
  "count_list (map card_id (cards catDogGame)) 99 = 0 \<and>
   flippedCards catDogGame = [] \<and>
   flippedCards (handleCardClick 99 catDogGame) = [99] \<and>
   flip 99 catDogGame = Inr (handleCardClick 99 catDogGame) \<and>
   flip 98 (handleCardClick 99 catDogGame) = Inl TypeError \<and>
   flip 99 oneUpGame = Inl TypeError"
  by code_simp

text \<open>
  Claim C8. In every reachable state of the memory game at most two cards are selected;
  with two cards selected a click on any card changes nothing; and the evaluation of a
  selected pair in a reachable state returns and leaves the selection empty.
\<close>

theorem selection_never_exceeds_two:
  "(reachableMemory s \<longrightarrow> length (flippedCards s) \<le> 2) \<and>
   (length (flippedCards s) = 2 \<longrightarrow> handleCardClick cardId s = s) \<and>
   (reachableMemory s \<and> length (flippedCards s) = 2 \<longrightarrow>
      (\<exists>s'. checkMatch s = Inr s' \<and> flippedCards s' = []))"
proof (intro conjI impI)
  assume "reachableMemory s"
  then have "memoryInv s" by (rule reachableMemory_inv)
  then show "length (flippedCards s) \<le> 2" by (simp add: memoryInv_def)
next
  assume "length (flippedCards s) = 2"
  then show "handleCardClick cardId s = s" by (simp add: handleCardClick_def)
next
  assume a: "reachableMemory s \<and> length (flippedCards s) = 2"
  then have "memoryInv s" by (intro reachableMemory_inv) blast
  then show "\<exists>s'. checkMatch s = Inr s' \<and> flippedCards s' = []"
    using a by (intro checkMatch_clears) blast+
qed

theorem selection_never_exceeds_two_witness:
  "reachableMemory mismatchedGame \<and> flippedCards mismatchedGame = [0, 3] \<and>
   length (flippedCards mismatchedGame) \<le> 2 \<and>
   handleCardClick 2 mismatchedGame = mismatchedGame \<and>
   (\<exists>s'. checkMatch mismatchedGame = Inr s' \<and> flippedCards s' = []) \<and>
   checkMatch mismatchedGame = Inr catDogGame"
proof -
  note T = selection_never_exceeds_two [of mismatchedGame 2]
  have sel: "flippedCards mismatchedGame = [0, 3]" by code_simp
  then have two: "length (flippedCards mismatchedGame) = 2" by simp
  have a: "length (flippedCards mismatchedGame) \<le> 2" using T reachable_mismatchedGame by blast
  have b: "handleCardClick 2 mismatchedGame = mismatchedGame" using T two by blast
  have c: "\<exists>s'. checkMatch mismatchedGame = Inr s' \<and> flippedCards s' = []"
    using T reachable_mismatchedGame two by blast
  have d: "checkMatch mismatchedGame = Inr catDogGame" by code_simp
  from reachable_mismatchedGame sel a b c d show ?thesis by blast
qed

lemma startNewGame_face_down:
  assumes "isOrderOf order (gameCardsFrom 0 fetchedCards)"
    and "startNewGame (Inr fetchedCards) order s0 = Inr s1"
  shows "\<forall>c\<in>set (cards s1). \<not> isFlipped c \<and> \<not> isMatched c"
proof -
  have c: "cards s1 = shuffleArray order (gameCardsFrom 0 fetchedCards)"
    using assms(2) by (auto simp: startNewGame_def)
  have "set (cards s1) = set (gameCardsFrom 0 fetchedCards)"
    unfolding c using mset_shuffleArray [OF assms(1)] by (rule mset_eq_setD)
  then show ?thesis using gameCardsFrom_face_down by blast
qed

text \<open>
  Claim C10. Every matched card is face up: this holds after start, is preserved by a
  click on any id, is preserved by the evaluation of a pair in every reachable state, and
  so holds in every reachable state of the memory game.
\<close>

theorem matched_cards_stay_face_up:
  "(isOrderOf order (gameCardsFrom 0 fetchedCards) \<and>
    startNewGame (Inr fetchedCards) order s0 = Inr s1 \<longrightarrow>
      (\<forall>c\<in>set (cards s1). isMatched c \<longrightarrow> isFlipped c)) \<and>
   ((\<forall>c\<in>set (cards s). isMatched c \<longrightarrow> isFlipped c) \<longrightarrow>
      (\<forall>c\<in>set (cards (handleCardClick cardId s)). isMatched c \<longrightarrow> isFlipped c)) \<and>
   (reachableMemory s \<and> checkMatch s = Inr s' \<longrightarrow>
      (\<forall>c\<in>set (cards s'). isMatched c \<longrightarrow> isFlipped c)) \<and>
   (reachableMemory s \<longrightarrow> (\<forall>c\<in>set (cards s). isMatched c \<longrightarrow> isFlipped c))"
proof (intro conjI impI)
  assume a: "isOrderOf order (gameCardsFrom 0 fetchedCards) \<and>
    startNewGame (Inr fetchedCards) order s0 = Inr s1"
  then have "\<forall>c\<in>set (cards s1). \<not> isFlipped c \<and> \<not> isMatched c"
    by (intro startNewGame_face_down) blast+
  then show "\<forall>c\<in>set (cards s1). isMatched c \<longrightarrow> isFlipped c" by blast
next
  assume "\<forall>c\<in>set (cards s). isMatched c \<longrightarrow> isFlipped c"
  then show "\<forall>c\<in>set (cards (handleCardClick cardId s)). isMatched c \<longrightarrow> isFlipped c"
    by (rule handleCardClick_matched_flipped)
next
  assume a: "reachableMemory s \<and> checkMatch s = Inr s'"
  then have "reachableMemory s" "checkMatch s = Inr s'" by blast+
  then have "reachableMemory s'" by (rule reachableMemory.evaluated)
  then have "memoryInv s'" by (rule reachableMemory_inv)
  then show "\<forall>c\<in>set (cards s'). isMatched c \<longrightarrow> isFlipped c" by (simp add: memoryInv_def)
next
  assume "reachableMemory s"
  then have "memoryInv s" by (rule reachableMemory_inv)
  then show "\<forall>c\<in>set (cards s). isMatched c \<longrightarrow> isFlipped c" by (simp add: memoryInv_def)
qed

lemma reachable_catsMatchedGame: "reachableMemory catsMatchedGame"
proof -
  let ?s1 = "handleCardClick (card_id (cards oneUpGame ! 3)) oneUpGame"
  have r1: "reachableMemory ?s1"
    using catImage_card by (intro reachableMemory.clicked reachable_oneUpGame) blast
  have "checkMatch ?s1 = Inr catsMatchedGame" by code_simp
  with r1 show ?thesis by (rule reachableMemory.evaluated)
qed

theorem matched_cards_stay_face_up_witness:
  "reachableMemory catsMatchedGame \<and>
   map isMatched (cards catsMatchedGame) = [False, True, False, True] \<and>
   map isFlipped (cards catsMatchedGame) = [False, True, False, True] \<and>
   list_all (\<lambda>c. isMatched c \<longrightarrow> isFlipped c) (cards catsMatchedGame) \<and>
   list_all (\<lambda>c. isMatched c \<longrightarrow> isFlipped c) (cards (handleCardClick 2 catsMatchedGame)) \<and>
   list_all (\<lambda>c. isMatched c \<longrightarrow> isFlipped c) (cards catDogGame) \<and>
   checkMatch mismatchedGame = Inr catDogGame"
proof -
  note T = matched_cards_stay_face_up
  have ev: "map isMatched (cards catsMatchedGame) = [False, True, False, True]"
    "map isFlipped (cards catsMatchedGame) = [False, True, False, True]"
    by code_simp+
  have a: "list_all (\<lambda>c. isMatched c \<longrightarrow> isFlipped c) (cards catsMatchedGame)"
    using T [of _ _ _ _ catsMatchedGame] reachable_catsMatchedGame
    unfolding list_all_iff by blast
  have b: "list_all (\<lambda>c. isMatched c \<longrightarrow> isFlipped c) (cards (handleCardClick 2 catsMatchedGame))"
    using T [of _ _ _ _ catsMatchedGame 2] a unfolding list_all_iff by blast
  have ev2: "checkMatch mismatchedGame = Inr catDogGame" by code_simp
  have c: "list_all (\<lambda>c. isMatched c \<longrightarrow> isFlipped c) (cards catDogGame)"
    using T [of _ _ _ _ mismatchedGame _ catDogGame] reachable_mismatchedGame ev2
    unfolding list_all_iff by blast
  from reachable_catsMatchedGame ev a b c ev2 show ?thesis by blast
qed

end
